(* ===== verification/Prelude.thy ===== *)
theory Prelude
  imports Main "HOL-Library.Word" "HOL-Library.Multiset" "HOL-Library.Code_Target_Numeral"
begin

text \<open>
  Shared vocabulary of the development.  JavaScript strings are sequences of
  UTF-16 code units, so a string of the page script is a list of 16-bit words
  (\<open>jstr\<close>); \<open>js\<close> turns an ASCII literal of the source into that form.
  \<open>dec\<close> is \<open>Number.prototype.toString\<close> on a non-negative integer
  (used for \<open>Date.now()\<close> in indicator ids and for numbers in JSON text) and
  \<open>parse_dec\<close> reads a digit string back.  The collection \<open>page_defs\<close>
  gathers the handler definitions that the run-level proofs unfold together
  (the theme toggle and the continuation of \<open>sendMessage\<close>, declared in
  \<open>Controller\<close>).  The list lemmas below are the generic facts about
  removing one element of a list that the renderer and the controller
  share, and the word lemma the digit and hex printers share.
\<close>

named_theorems page_defs "definitions of the page handlers, unfolded together"

type_synonym jstr = "16 word list"

definition js :: "string \<Rightarrow> jstr" where
  "js s = map (\<lambda>c. of_nat (of_char c)) s"

definition drop_at :: "nat \<Rightarrow> 'a list \<Rightarrow> 'a list" where
  "drop_at i xs = take i xs @ drop (Suc i) xs"

fun dec :: "nat \<Rightarrow> jstr" where
  "dec n = (if n < 10 then [48 + of_nat n] else dec (n div 10) @ [48 + of_nat (n mod 10)])"

definition is_digit :: "16 word \<Rightarrow> bool" where
  "is_digit c \<longleftrightarrow> 48 \<le> c \<and> c \<le> 57"

definition parse_dec :: "jstr \<Rightarrow> nat option" where
  "parse_dec s =
     (if s \<noteq> [] \<and> list_all is_digit s
      then Some (foldl (\<lambda>a c. 10 * a + (unat c - 48)) 0 s) else None)"

declare dec.simps [simp del]

lemma js_Nil [simp]: "js [] = []"
  by (simp add: js_def)

lemma js_append [simp]: "js (a @ b) = js a @ js b"
  by (simp add: js_def)

lemma js_eq_Nil [simp]: "js s = [] \<longleftrightarrow> s = []"
  by (simp add: js_def)

lemma length_js [simp]: "length (js s) = length s"
  by (simp add: js_def)

lemma drop_at_length [simp]: "i < length xs \<Longrightarrow> length (drop_at i xs) = length xs - 1"
  by (simp add: drop_at_def)

lemma drop_at_beyond [simp]: "length xs \<le> i \<Longrightarrow> drop_at i xs = xs"
  by (simp add: drop_at_def)

lemma drop_at_0 [simp]: "drop_at 0 (x # xs) = xs"
  by (simp add: drop_at_def)

lemma mset_drop_at:
  "i < length xs \<Longrightarrow> mset (drop_at i xs) = mset xs - {# xs ! i #}"
proof -
  assume i: "i < length xs"
  then have "xs = take i xs @ xs ! i # drop (Suc i) xs"
    by (simp add: id_take_nth_drop)
  then have "mset xs = mset (take i xs @ drop (Suc i) xs) + {# xs ! i #}"
    by (metis add_mset_add_single mset.simps(2) mset_append union_mset_add_mset_right)
  then show ?thesis by (simp add: drop_at_def)
qed

lemma map_drop_at: "map f (drop_at i xs) = drop_at i (map f xs)"
  by (simp add: drop_at_def take_map drop_map)

lemma set_drop_at_subset: "set (drop_at i xs) \<subseteq> set xs"
  by (auto simp add: drop_at_def dest: in_set_takeD in_set_dropD)

lemma unat_numeral_plus:
  "numeral k + d < 65536 \<Longrightarrow> unat (numeral k + of_nat d :: 16 word) = numeral k + d"
proof -
  assume d: "numeral k + d < 65536"
  have "(numeral k + of_nat d :: 16 word) = of_nat (numeral k + d)" by simp
  moreover have "unat (of_nat (numeral k + d) :: 16 word) = (numeral k + d) mod 2 ^ LENGTH(16)"
    by (rule unat_of_nat)
  moreover have "(numeral k + d) mod 2 ^ LENGTH(16) = numeral k + d"
    using d by simp
  ultimately show ?thesis by simp
qed

lemma unat_digit: "d < 10 \<Longrightarrow> unat (48 + of_nat d :: 16 word) = 48 + d"
  by (simp add: unat_numeral_plus)

lemma dec_digit_val: "d < 10 \<Longrightarrow> unat (48 + of_nat d :: 16 word) - 48 = d"
  by (simp add: unat_digit)

lemma dec_digit_is_digit: "d < 10 \<Longrightarrow> is_digit (48 + of_nat d :: 16 word)"
proof -
  assume d: "d < 10"
  then have u: "unat (48 + of_nat d :: 16 word) = 48 + d"
    by (rule unat_digit)
  show ?thesis unfolding is_digit_def word_le_nat_alt using u d by simp
qed

lemma dec_props: "dec n \<noteq> [] \<and> list_all is_digit (dec n) \<and>
    foldl (\<lambda>a c. 10 * a + (unat c - 48)) 0 (dec n) = n"
proof (induction n rule: dec.induct)
  case (1 n)
  show ?case
  proof (cases "n < 10")
    case True
    then show ?thesis by (simp add: dec.simps[of n] dec_digit_val dec_digit_is_digit)
  next
    case False
    then show ?thesis using "1.IH" False
      by (simp add: dec.simps[of n] dec_digit_val dec_digit_is_digit)
  qed
qed

lemma parse_dec_dec: "parse_dec (dec n) = Some n"
  using dec_props[of n] by (simp add: parse_dec_def)

lemma remove1_nth_distinct: "distinct xs \<Longrightarrow> i < length xs \<Longrightarrow> remove1 (xs ! i) xs = drop_at i xs"
proof (induction xs arbitrary: i)
  case (Cons x xs)
  then show ?case
  proof (cases i)
    case (Suc j)
    then have "x \<noteq> xs ! j" using Cons.prems by auto
    then show ?thesis using Cons Suc by (simp add: drop_at_def)
  qed simp
qed simp

end
