(* ===== verification/Markdown.thy ===== *)
theory Markdown
  imports Prelude "HOL-Library.Sublist"
begin

text \<open>
  The text normalisation of \<open>addMessage\<close> (\<open>src/static/script.js\<close>, lines
  71--73): \<open>text.replace(/\*\*(.*?)\*\*/g, '<strong>$1</strong>')\<close>
  followed by \<open>.replace(/\n/g, '<br>')\<close>.  In a JavaScript regular
  expression without the \<open>s\<close> flag, \<open>.\<close> matches every code unit but the
  four line terminators LF, CR, U+2028 and U+2029; the lazy \<open>.*?\<close> takes the
  shortest run of such code units that is followed by \<open>**\<close>; the global
  replace scans left to right and resumes after each match.

  Two models of the bold rule are given.  \<open>match_at\<close> and \<open>replace_bold\<close>
  follow the regular-expression semantics literally: at each index the
  shortest content length \<open>k\<close> is searched, as the backtracking engine tries
  \<open>k = 0, 1, \<dots>\<close>.  \<open>close_len\<close> and \<open>bold_md\<close> are a one-pass structural
  recursion, and the lemmas show that the two agree, that the result has no
  line feed left, that text without \<open>*\<close> and line feed is left unchanged, and
  that no character is escaped.
\<close>

definition line_term :: "16 word \<Rightarrow> bool" where
  "line_term c \<longleftrightarrow> c = 10 \<or> c = 13 \<or> c = 0x2028 \<or> c = 0x2029"

definition strong :: "jstr \<Rightarrow> jstr" where
  "strong x = js ''<strong>'' @ x @ js ''</strong>''"

definition closes_at :: "jstr \<Rightarrow> nat \<Rightarrow> bool" where
  "closes_at xs k \<longleftrightarrow>
     Suc k < length xs \<and> xs ! k = 42 \<and> xs ! Suc k = 42 \<and>
     list_all (\<lambda>c. \<not> line_term c) (take k xs)"

definition match_at :: "jstr \<Rightarrow> nat \<Rightarrow> nat option" where
  "match_at s i =
     (if Suc i < length s \<and> s ! i = 42 \<and> s ! Suc i = 42
      then find (closes_at (drop (i + 2) s)) [0..<length s]
      else None)"

function replace_bold :: "jstr \<Rightarrow> nat \<Rightarrow> jstr" where
  "replace_bold s i =
     (if length s \<le> i then []
      else (case match_at s i of
              Some k \<Rightarrow> strong (take k (drop (i + 2) s)) @ replace_bold s (i + k + 4)
            | None \<Rightarrow> s ! i # replace_bold s (Suc i)))"
  by pat_completeness auto
termination
  by (relation "measure (\<lambda>(s, i). length s - i)") auto

fun close_len :: "jstr \<Rightarrow> nat option" where
  "close_len [] = None"
| "close_len [c] = None"
| "close_len (c # d # cs) =
     (if line_term c then None
      else if c = 42 \<and> d = 42 then Some 0
      else map_option Suc (close_len (d # cs)))"

fun bold_md :: "jstr \<Rightarrow> jstr" where
  "bold_md [] = []"
| "bold_md [c] = [c]"
| "bold_md (c # d # cs) =
     (if c = 42 \<and> d = 42
      then (case close_len cs of
              Some k \<Rightarrow> strong (take k cs) @ bold_md (drop (k + 2) cs)
            | None \<Rightarrow> c # bold_md (d # cs))
      else c # bold_md (d # cs))"

definition newline_br :: "jstr \<Rightarrow> jstr" where
  "newline_br s = concat (map (\<lambda>c. if c = 10 then js ''<br>'' else [c]) s)"

definition format_text :: "jstr \<Rightarrow> jstr" where
  "format_text s = newline_br (bold_md s)"

lemma closes_at_0: "closes_at xs 0 \<longleftrightarrow> Suc 0 < length xs \<and> xs ! 0 = 42 \<and> xs ! Suc 0 = 42"
  by (simp add: closes_at_def)

lemma closes_at_Cons_Suc: "closes_at (c # xs) (Suc k) \<longleftrightarrow> \<not> line_term c \<and> closes_at xs k"
  by (auto simp add: closes_at_def)

lemma closes_at_length: "closes_at xs k \<Longrightarrow> k < length xs"
  by (simp add: closes_at_def)

lemma close_len_spec:
  "(close_len xs = Some k \<longrightarrow> closes_at xs k \<and> (\<forall>j<k. \<not> closes_at xs j)) \<and>
   (close_len xs = None \<longrightarrow> (\<forall>j. \<not> closes_at xs j))"
proof (induction xs arbitrary: k rule: close_len.induct)
  case 1
  then show ?case by (simp add: closes_at_def)
next
  case (2 c)
  then show ?case by (simp add: closes_at_def)
next
  case (3 c d cs)
  show ?case
  proof (cases "line_term c")
    case True
    then have "\<not> closes_at (c # d # cs) j" for j
      by (cases j) (auto simp add: closes_at_Cons_Suc closes_at_0 line_term_def)
    with True show ?thesis by simp
  next
    case lt: False
    show ?thesis
    proof (cases "c = 42 \<and> d = 42")
      case True
      with lt show ?thesis by (simp add: closes_at_0)
    next
      case False
      have nz: "\<not> closes_at (c # d # cs) 0" using False by (simp add: closes_at_0)
      have IH: "(close_len (d # cs) = Some k' \<longrightarrow> closes_at (d # cs) k' \<and> (\<forall>j<k'. \<not> closes_at (d # cs) j)) \<and>
          (close_len (d # cs) = None \<longrightarrow> (\<forall>j. \<not> closes_at (d # cs) j))" for k'
        using "3.IH" lt False by blast
      show ?thesis
      proof (cases "close_len (d # cs)")
        case None
        have "\<not> closes_at (c # d # cs) j" for j
          using nz IH None by (cases j) (simp_all add: closes_at_Cons_Suc)
        with None lt False show ?thesis by auto
      next
        case (Some k')
        with IH[of k'] nz lt False show ?thesis
          by (auto simp add: closes_at_Cons_Suc less_Suc_eq_0_disj)
      qed
    qed
  qed
qed

lemma find_upt_Some_iff:
  "find P [0..<n] = Some k \<longleftrightarrow> k < n \<and> P k \<and> (\<forall>j<k. \<not> P j)"
  by (auto simp add: find_Some_iff)

lemma close_len_find:
  assumes "length xs \<le> n"
  shows "find (closes_at xs) [0..<n] = close_len xs"
proof (cases "close_len xs")
  case None
  with close_len_spec[of xs] show ?thesis by (simp add: find_None_iff)
next
  case (Some k)
  with close_len_spec[of xs k] have "closes_at xs k" "\<forall>j<k. \<not> closes_at xs j" by auto
  moreover from \<open>closes_at xs k\<close> assms have "k < n" by (auto dest: closes_at_length)
  ultimately show ?thesis using Some by (simp add: find_upt_Some_iff)
qed

lemma match_at_close_len:
  "match_at s i =
     (if Suc i < length s \<and> s ! i = 42 \<and> s ! Suc i = 42 then close_len (drop (i + 2) s) else None)"
  by (simp add: match_at_def close_len_find)

declare replace_bold.simps [simp del]

lemma replace_bold_drop: "replace_bold s i = bold_md (drop i s)"
proof (induction s i rule: replace_bold.induct)
  case (1 s i)
  show ?case
  proof (cases "length s \<le> i")
    case True
    then show ?thesis by (simp add: replace_bold.simps[of s i])
  next
    case False
    then have eq: "replace_bold s i = (case match_at s i of
              Some k \<Rightarrow> strong (take k (drop (i + 2) s)) @ replace_bold s (i + k + 4)
            | None \<Rightarrow> s ! i # replace_bold s (Suc i))"
      by (simp add: replace_bold.simps[of s i])
    show ?thesis
    proof (cases "Suc i < length s")
      case False2: False
      with False have "drop i s = [s ! i]" "match_at s i = None"
        by (auto simp add: match_at_close_len Cons_nth_drop_Suc[symmetric])
      moreover have "replace_bold s (Suc i) = []"
        using False2 by (simp add: replace_bold.simps[of s "Suc i"])
      ultimately show ?thesis using eq by simp
    next
      case True
      then have d: "drop i s = s ! i # s ! Suc i # drop (i + 2) s"
        by (simp add: Cons_nth_drop_Suc)
      have d1: "drop (Suc i) s = s ! Suc i # drop (i + 2) s"
        using True by (simp add: Cons_nth_drop_Suc)
      show ?thesis
      proof (cases "match_at s i")
        case None
        have ih: "replace_bold s (Suc i) = bold_md (drop (Suc i) s)"
          using "1.IH"(1) False None by simp
        from None eq have "replace_bold s i = s ! i # replace_bold s (Suc i)" by simp
        with ih None True d d1 show ?thesis
          by (auto simp add: match_at_close_len split: if_splits)
      next
        case (Some k)
        with False "1.IH"(2) True d eq show ?thesis
          by (auto simp add: match_at_close_len split: if_splits) (simp add: numeral_eq_Suc add.commute)
      qed
    qed
  qed
qed

lemma close_len_SomeD:
  "close_len xs = Some k \<Longrightarrow> Suc k < length xs \<and> xs ! k = 42 \<and> xs ! Suc k = 42"
  using close_len_spec[of xs k] by (simp add: closes_at_def)

lemma close_len_split:
  assumes "close_len xs = Some k"
  shows "xs = take k xs @ 42 # 42 # drop (k + 2) xs"
proof -
  from close_len_SomeD[OF assms] have k: "Suc k < length xs" "xs ! k = 42" "xs ! Suc k = 42" by auto
  then have "drop k xs = 42 # 42 # drop (k + 2) xs"
    by (metis Cons_nth_drop_Suc Suc_lessD add_2_eq_Suc')
  then show ?thesis by (metis append_take_drop_id)
qed

lemma subseq_bold_md: "subseq (filter (\<lambda>c. c \<noteq> 42) s) (bold_md s)"
proof (induction s rule: bold_md.induct)
  case (3 c d cs)
  show ?case
  proof (cases "c = 42 \<and> d = 42")
    case True
    show ?thesis
    proof (cases "close_len cs")
      case None
      from True None "3.IH"(1) have "subseq (filter (\<lambda>c. c \<noteq> 42) cs) (bold_md (d # cs))"
        by simp
      with True None show ?thesis by (simp add: list_emb_Cons)
    next
      case (Some k)
      have f: "filter (\<lambda>c. c \<noteq> 42) cs =
          filter (\<lambda>c. c \<noteq> 42) (take k cs) @ filter (\<lambda>c. c \<noteq> 42) (drop (k + 2) cs)"
        by (subst close_len_split[OF Some]) simp
      have "subseq (filter (\<lambda>c. c \<noteq> 42) (take k cs) @ filter (\<lambda>c. c \<noteq> 42) (drop (k + 2) cs))
          (js ''<strong>'' @ (take k cs @ js ''</strong>'') @ bold_md (drop (k + 2) cs))"
      proof (rule list_emb_append2)
        have "subseq (filter (\<lambda>c. c \<noteq> 42) (take k cs) @ []) (take k cs @ js ''</strong>'')"
          by (rule list_emb_append_mono) simp_all
        then show "subseq (filter (\<lambda>c. c \<noteq> 42) (take k cs) @ filter (\<lambda>c. c \<noteq> 42) (drop (k + 2) cs))
            ((take k cs @ js ''</strong>'') @ bold_md (drop (k + 2) cs))"
          using "3.IH"(2)[OF True Some] by (auto intro: list_emb_append_mono)
      qed
      with True Some f show ?thesis by (simp add: strong_def)
    qed
  next
    case False
    with "3.IH"(3) show ?thesis by auto
  qed
qed auto

lemma subseq_newline_br: "subseq (filter (\<lambda>c. c \<noteq> 10) s) (newline_br s)"
  by (induction s) (auto simp add: newline_br_def intro: list_emb_append2)

lemma bold_md_no_star: "42 \<notin> set s \<Longrightarrow> bold_md s = s"
  by (induction s rule: bold_md.induct) auto

lemma newline_br_no_lf: "10 \<notin> set s \<Longrightarrow> newline_br s = s"
  by (induction s) (auto simp add: newline_br_def)


text \<open>
  C18. The one-pass bold rewriting computes exactly what the global replace
  with the lazy regular expression \<open>/\*\*(.*?)\*\*/g\<close> computes.
\<close>

theorem bold_md_regex_equiv: "bold_md s = replace_bold s 0"
  by (simp add: replace_bold_drop)

text \<open>
  C19. After normalisation no line feed is left: every LF became \<open><br>\<close>.
\<close>

theorem format_text_no_line_feed: "10 \<notin> set (format_text s)"
proof -
  have "10 \<notin> set (newline_br t)" for t
    by (auto simp add: newline_br_def js_def split: if_splits)
  then show ?thesis by (simp add: format_text_def)
qed

text \<open>
  C20. Text with no asterisk and no line feed is rendered exactly as given.
\<close>

theorem format_text_plain:
  assumes "42 \<notin> set s" and "10 \<notin> set s"
  shows "format_text s = s"
  using assms by (simp add: format_text_def bold_md_no_star newline_br_no_lf)

theorem format_text_plain_witness:
  "42 \<notin> set (js ''plain text'') \<and> 10 \<notin> set (js ''plain text'') \<and>
   format_text (js ''plain text'') = js ''plain text''"
proof -
  have a: "42 \<notin> set (js ''plain text'')" and b: "10 \<notin> set (js ''plain text'')"
    by (simp_all add: js_def)
  show ?thesis using a b format_text_plain[OF a b] by simp
qed

text \<open>
  C21. Normalisation escapes nothing: every code unit of the text other than
  \<open>*\<close> and LF reaches \<open>innerHTML\<close> in its order, so markup characters
  such as \<open><\<close>, \<open>>\<close>, \<open>&\<close> and quotes in a message are parsed as HTML.
\<close>

theorem format_text_keeps_markup:
  "subseq (filter (\<lambda>c. c \<noteq> 42 \<and> c \<noteq> 10) s) (format_text s)"
proof -
  have "filter (\<lambda>c. c \<noteq> 42 \<and> c \<noteq> 10) s = filter (\<lambda>c. c \<noteq> 10) (filter (\<lambda>c. c \<noteq> 42) s)"
    by (simp add: conj_commute)
  also have "subseq \<dots> (filter (\<lambda>c. c \<noteq> 10) (bold_md s))"
    by (rule subseq_filter[OF subseq_bold_md])
  also have "subseq \<dots> (newline_br (bold_md s))"
    by (rule subseq_newline_br)
  finally show ?thesis by (simp add: format_text_def)
qed

end
