(* ===== verification/Json.thy ===== *)
theory Json
  imports Prelude
begin

text \<open>
  The JavaScript values the page script handles.  Everything the script reads
  or sends is either a JSON value (what \<open>JSON.parse\<close> returns and what
  \<open>JSON.stringify\<close> accepts) or \<open>undefined\<close>, so a script value is a
  \<open>json option\<close> with \<open>None\<close> for \<open>undefined\<close>.  The conversation state
  (\<open>context\<close> in \<open>src/static/script.js\<close>) is such a value and is never
  inspected by the client.  Property reads on a parsed reply
  (\<open>data.context\<close>, \<open>data.response\<close>) throw a \<open>TypeError\<close> on \<open>null\<close>,
  read the last binding of an object (\<open>JSON.parse\<close> keeps the last duplicate
  key) and give \<open>undefined\<close> on every other value, since neither key names a
  built-in property of strings, numbers, booleans, arrays or
  \<open>Object.prototype\<close>.  Numbers are integers here: the client never
  computes with a number of the protocol, it only carries them.
\<close>

datatype json =
    JNull
  | JBool bool
  | JNum int
  | JStr jstr
  | JArr "json list"
  | JObj "(jstr \<times> json) list"

type_synonym jsval = "json option"

datatype js_error = TypeError

definition get_prop :: "json \<Rightarrow> jstr \<Rightarrow> js_error + jsval" where
  "get_prop v k = (case v of
       JNull \<Rightarrow> Inl TypeError
     | JObj kvs \<Rightarrow> Inr (map_of (rev kvs) k)
     | _ \<Rightarrow> Inr None)"

definition initial_context :: json where
  "initial_context = JObj [(js ''state'', JStr (js ''START''))]"

definition request_body :: "jstr \<Rightarrow> jsval \<Rightarrow> json" where
  "request_body message ctx =
     JObj ((js ''message'', JStr message) #
           (case ctx of None \<Rightarrow> [] | Some c \<Rightarrow> [(js ''context'', c)]))"

definition body_context :: "json \<Rightarrow> jsval" where
  "body_context b = (case get_prop b (js ''context'') of Inl _ \<Rightarrow> None | Inr c \<Rightarrow> c)"

lemma get_prop_JObj [simp]: "get_prop (JObj kvs) k = Inr (map_of (rev kvs) k)"
  by (simp add: get_prop_def)

lemma get_prop_JNull [simp]: "get_prop JNull k = Inl TypeError"
  by (simp add: get_prop_def)

lemma get_prop_not_null: "v \<noteq> JNull \<Longrightarrow> \<exists>r. get_prop v k = Inr r"
  by (cases v) (simp_all add: get_prop_def)

lemma body_context_request [simp]: "body_context (request_body m ctx) = ctx"
  by (cases ctx) (simp_all add: body_context_def request_body_def js_def)

lemma body_message_request [simp]:
  "get_prop (request_body m ctx) (js ''message'') = Inr (Some (JStr m))"
  by (cases ctx) (simp_all add: request_body_def js_def)

end
