(* ===== verification/Renderer.thy ===== *)
theory Renderer
  imports Markdown Json
begin

text \<open>
  The transcript renderer of \<open>src/static/script.js\<close>: \<open>addMessage\<close>
  (lines 59--82), \<open>showTypingIndicator\<close> (85--105),
  \<open>removeTypingIndicator\<close> (107--110) and \<open>scrollToBottom\<close> (112--114).
  The chat window is the record \<open>view\<close>: its children in document order
  (\<open>thread\<close>) and its \<open>scrollTop\<close>.  A child is a message entry
  (\<open>messageDiv\<close> with the sender's class and avatar and the normalised
  text as \<open>innerHTML\<close>) or a typing indicator (the bot-styled entry with the
  three dots, whose DOM id is \<open>'typing-' + Date.now()\<close>).  Layout is
  abstracted: every entry is one unit high, so \<open>scrollHeight\<close> is the
  number of entries and the view is at the bottom when \<open>scrollTop\<close> is at
  least that.  The operations are stated on \<open>'a view_scheme\<close>, so the
  controller's page record, which extends \<open>view\<close>, uses them unchanged.

  \<open>addMessage\<close> calls \<open>text.replace\<close> first; when \<open>text\<close> is not a string
  (the reply had no string \<open>response\<close>) that call throws a \<open>TypeError\<close>
  before anything is attached, which is the \<open>Inl\<close> result.
  \<open>document.getElementById\<close> returns the first element in document order
  with the id, so \<open>removeTypingIndicator\<close> removes the first indicator with
  that id, and nothing when there is none.  The page's other ids
  (\<open>chat-window\<close>, \<open>user-input\<close>, \<open>send-btn\<close>, \<open>theme-toggle\<close>) never
  start with \<open>typing-\<close>.  The timestamp is printed with the Prelude's
  \<open>dec\<close>.
\<close>

datatype sender = User | Bot

datatype elem = Message sender jstr | Typing jstr

record view =
  thread :: "elem list"
  scroll_top :: nat


definition typing_id :: "nat \<Rightarrow> jstr" where
  "typing_id now = js ''typing-'' @ dec now"

definition scroll_to_bottom :: "'a view_scheme \<Rightarrow> 'a view_scheme" where
  "scroll_to_bottom v = v\<lparr>scroll_top := length (thread v)\<rparr>"

definition add_message :: "jsval \<Rightarrow> sender \<Rightarrow> 'a view_scheme \<Rightarrow> js_error + 'a view_scheme" where
  "add_message text who v =
     (case text of
        Some (JStr t) \<Rightarrow>
          Inr (scroll_to_bottom (v\<lparr>thread := thread v @ [Message who (format_text t)]\<rparr>))
      | _ \<Rightarrow> Inl TypeError)"

definition show_typing_indicator :: "nat \<Rightarrow> 'a view_scheme \<Rightarrow> jstr \<times> 'a view_scheme" where
  "show_typing_indicator now v =
     (let i = typing_id now
      in (i, scroll_to_bottom (v\<lparr>thread := thread v @ [Typing i]\<rparr>)))"

fun remove_first_typing :: "jstr \<Rightarrow> elem list \<Rightarrow> elem list" where
  "remove_first_typing i [] = []"
| "remove_first_typing i (Message s h # es) = Message s h # remove_first_typing i es"
| "remove_first_typing i (Typing j # es) =
     (if j = i then es else Typing j # remove_first_typing i es)"

definition remove_typing_indicator :: "jstr \<Rightarrow> 'a view_scheme \<Rightarrow> 'a view_scheme" where
  "remove_typing_indicator i v = v\<lparr>thread := remove_first_typing i (thread v)\<rparr>"

fun typing_ids :: "elem list \<Rightarrow> jstr list" where
  "typing_ids [] = []"
| "typing_ids (Message s h # es) = typing_ids es"
| "typing_ids (Typing i # es) = i # typing_ids es"

fun entries :: "elem list \<Rightarrow> (sender \<times> jstr) list" where
  "entries [] = []"
| "entries (Message s h # es) = (s, h) # entries es"
| "entries (Typing i # es) = entries es"

definition pinned :: "'a view_scheme \<Rightarrow> bool" where
  "pinned v \<longleftrightarrow> length (thread v) \<le> scroll_top v"


lemma typing_ids_append [simp]: "typing_ids (xs @ ys) = typing_ids xs @ typing_ids ys"
  by (induction xs rule: typing_ids.induct) auto

lemma entries_append [simp]: "entries (xs @ ys) = entries xs @ entries ys"
  by (induction xs rule: entries.induct) auto

lemma typing_ids_remove_first [simp]:
  "typing_ids (remove_first_typing i es) = remove1 i (typing_ids es)"
  by (induction i es rule: remove_first_typing.induct) auto

lemma entries_remove_first [simp]: "entries (remove_first_typing i es) = entries es"
  by (induction i es rule: remove_first_typing.induct) auto

lemma remove_first_typing_absent: "i \<notin> set (typing_ids es) \<Longrightarrow> remove_first_typing i es = es"
  by (induction i es rule: remove_first_typing.induct) auto

lemma add_message_JStr [simp]:
  "add_message (Some (JStr t)) who v =
     Inr (scroll_to_bottom (v\<lparr>thread := thread v @ [Message who (format_text t)]\<rparr>))"
  by (simp add: add_message_def)

lemma add_message_Inr: "add_message text who v = Inr v' \<Longrightarrow> \<exists>t. text = Some (JStr t)"
  by (auto simp add: add_message_def split: option.splits json.splits)

lemma thread_scroll_to_bottom [simp]: "thread (scroll_to_bottom v) = thread v"
  by (simp add: scroll_to_bottom_def)

lemma pinned_scroll_to_bottom [simp]: "pinned (scroll_to_bottom v)"
  by (simp add: scroll_to_bottom_def pinned_def)

lemma scroll_to_bottom_more [simp]: "view.more (scroll_to_bottom v) = view.more v"
  by (simp add: scroll_to_bottom_def)

lemma thread_remove_typing [simp]:
  "thread (remove_typing_indicator i v) = remove_first_typing i (thread v)"
  by (simp add: remove_typing_indicator_def)

lemma more_remove_typing [simp]:
  "view.more (remove_typing_indicator i v) = view.more v"
  by (simp add: remove_typing_indicator_def)

lemma show_typing_indicator_eq [simp]:
  "show_typing_indicator now v =
     (typing_id now, scroll_to_bottom (v\<lparr>thread := thread v @ [Typing (typing_id now)]\<rparr>))"
  by (simp add: show_typing_indicator_def Let_def)



lemma typing_id_inj: "typing_id a = typing_id b \<longleftrightarrow> a = b"
proof
  assume "typing_id a = typing_id b"
  then have "dec a = dec b" by (simp add: typing_id_def)
  then have "parse_dec (dec a) = parse_dec (dec b)" by simp
  then show "a = b" by (simp add: parse_dec_dec)
qed simp

lemma remove_first_typing_twice:
  assumes "count (mset (typing_ids es)) i \<le> 1"
  shows "remove_first_typing i (remove_first_typing i es) = remove_first_typing i es"
proof -
  have "i \<notin> set (remove1 i (typing_ids es))"
  proof
    assume "i \<in> set (remove1 i (typing_ids es))"
    then have "0 < count (mset (remove1 i (typing_ids es))) i"
      by (simp only: count_greater_zero_iff set_mset_mset)
    with assms show False by simp
  qed
  then show ?thesis by (simp add: remove_first_typing_absent)
qed

text \<open>
  C22. \<open>addMessage\<close> on a string appends exactly one entry, attributed to
  the sender and holding the normalised text, leaves the typing indicators
  alone and pins the view to the bottom; on anything else (\<open>undefined\<close>,
  \<open>null\<close>, a number, an object) it throws a \<open>TypeError\<close>.
\<close>

theorem add_message_spec:
  "(case add_message text who v of
      Inl e \<Rightarrow> e = TypeError \<and> (\<forall>t. text \<noteq> Some (JStr t))
    | Inr v' \<Rightarrow> (\<exists>t. text = Some (JStr t) \<and>
         entries (thread v') = entries (thread v) @ [(who, format_text t)] \<and>
         typing_ids (thread v') = typing_ids (thread v) \<and> pinned v'))"
  by (auto simp add: add_message_def split: option.splits json.splits)

text \<open>
  C23. Removing a typing indicator twice is the same as removing it once when
  at most one indicator carries the id.
\<close>

theorem remove_typing_idempotent:
  assumes "count (mset (typing_ids (thread v))) i \<le> 1"
  shows "remove_typing_indicator i (remove_typing_indicator i v) = remove_typing_indicator i v"
  using remove_first_typing_twice[OF assms] by (simp add: remove_typing_indicator_def)

theorem remove_typing_idempotent_witness:
  "count (mset (typing_ids (thread \<lparr>thread = [Typing (typing_id 7)], scroll_top = 1\<rparr>))) (typing_id 7) \<le> 1 \<and>
   remove_typing_indicator (typing_id 7)
     (remove_typing_indicator (typing_id 7) \<lparr>thread = [Typing (typing_id 7)], scroll_top = 1\<rparr>) =
   remove_typing_indicator (typing_id 7) \<lparr>thread = [Typing (typing_id 7)], scroll_top = 1\<rparr>"
proof -
  have h: "count (mset (typing_ids (thread \<lparr>thread = [Typing (typing_id 7)], scroll_top = 1\<rparr>))) (typing_id 7) \<le> 1"
    by simp
  show ?thesis using h remove_typing_idempotent[OF h] by simp
qed

text \<open>
  C24. Removal is not idempotent when two or more indicators share an id,
  which happens when two turns start within the same millisecond: the
  second removal takes away one more indicator with that id, the other
  turn's.
\<close>

theorem remove_typing_dup:
  assumes "2 \<le> count (mset (typing_ids (thread v))) i"
  shows "count (mset (typing_ids (thread (remove_typing_indicator i (remove_typing_indicator i v))))) i =
      count (mset (typing_ids (thread v))) i - 2 \<and>
    remove_typing_indicator i (remove_typing_indicator i v) \<noteq> remove_typing_indicator i v"
proof -
  have c: "count (mset (typing_ids (remove_first_typing i es))) i = count (mset (typing_ids es)) i - 1" for es
    by (simp add: mset_remove1)
  have a: "count (mset (typing_ids (thread (remove_typing_indicator i (remove_typing_indicator i v))))) i =
      count (mset (typing_ids (thread v))) i - 2" by (simp only: thread_remove_typing c)
  have b: "count (mset (typing_ids (thread (remove_typing_indicator i v)))) i =
      count (mset (typing_ids (thread v))) i - 1" by (simp only: thread_remove_typing c)
  have d: "count (mset (typing_ids (thread v))) i - 2 \<noteq> count (mset (typing_ids (thread v))) i - 1"
    using assms by simp
  have "remove_typing_indicator i (remove_typing_indicator i v) \<noteq> remove_typing_indicator i v"
  proof
    assume "remove_typing_indicator i (remove_typing_indicator i v) = remove_typing_indicator i v"
    with a b d show False by simp
  qed
  with a show ?thesis by simp
qed

theorem remove_typing_dup_witness:
  "2 \<le> count (mset (typing_ids (thread \<lparr>thread = [Typing (typing_id 3), Message Bot [], Typing (typing_id 3)], scroll_top = 3\<rparr>))) (typing_id 3) \<and>
   remove_typing_indicator (typing_id 3) (remove_typing_indicator (typing_id 3)
       \<lparr>thread = [Typing (typing_id 3), Message Bot [], Typing (typing_id 3)], scroll_top = 3\<rparr>) \<noteq>
   remove_typing_indicator (typing_id 3) \<lparr>thread = [Typing (typing_id 3), Message Bot [], Typing (typing_id 3)], scroll_top = 3\<rparr>"
proof -
  have h: "2 \<le> count (mset (typing_ids (thread \<lparr>thread = [Typing (typing_id 3), Message Bot [], Typing (typing_id 3)], scroll_top = 3\<rparr>))) (typing_id 3)"
    by simp
  show ?thesis using h remove_typing_dup[OF h] by blast
qed

lemmas renderer_simps = add_message_def show_typing_indicator_def remove_typing_indicator_def
  scroll_to_bottom_def

end
