(* ===== verification/Controller.thy ===== *)
theory Controller
  imports Renderer
begin

text \<open>
  The conversation controller of \<open>src/static/script.js\<close> and the event
  wiring around it.  The page state is the record \<open>page\<close>, an extension of
  the renderer's chat window: the text field's value (\<open>userInput.value\<close>),
  the conversation state (\<open>let context\<close>, line 7, the field \<open>context_val\<close>), whether the start button
  is still in the document, the dark-mode class of the body and the toggle's
  label, the clock that \<open>Date.now()\<close> reads, and the suspended activations of
  \<open>sendMessage\<close>.

  \<open>sendMessage\<close> (lines 25--56) runs in two pieces.  Up to the call of
  \<open>fetch\<close> it is synchronous (\<open>send_message\<close>, with \<open>dispatch\<close> for lines
  33--43): the guard, the user entry, clearing the field, the typing
  indicator, and the request body built from the \<open>context\<close> of that
  moment.  The activation then waits; it is recorded as a \<open>turn\<close> holding the
  indicator's id and the request.  When the environment settles it
  (\<open>resume\<close>), the rest of the body runs (\<open>settle_turn\<close>, lines 45--55):
  the \<open>try\<close> block, and on any throw the \<open>catch\<close> block
  (\<open>fail_path\<close>).  The two awaits (\<open>fetch\<close>, then \<open>response.json()\<close>)
  are one resumption here because nothing between them changes the page; a
  reply is \<open>Rejected\<close> (the fetch or the JSON decoding rejected) or
  \<open>Replied\<close> with the decoded body, whatever the HTTP status.  Turns may be
  settled in any order, as network replies may arrive in any order.

  \<open>step\<close> is one event of the page: the listeners of lines 10, 117 and 119,
  the start button's \<open>startChat\<close> (lines 16--22), and the environment's
  moves (the user edits the field, the clock advances, a reply arrives, the
  user scrolls).
\<close>

record turn =
  loading_id :: jstr
  request :: json

record page = view +
  input :: jstr
  context_val :: jsval
  start_btn :: bool
  dark :: bool
  toggle_text :: jstr
  clock :: nat
  inflight :: "turn list"

datatype reply = Rejected | Replied json

datatype event =
    ThemeClick
  | StartClick
  | SendClick
  | KeyPress jstr
  | Edit jstr
  | Tick nat
  | Resume nat reply
  | Scroll nat

definition sun_icon :: jstr where
  "sun_icon = [0x2600, 0xFE0F]"

definition moon_icon :: jstr where
  "moon_icon = [0xD83C, 0xDF19]"

definition fallback_text :: jstr where
  "fallback_text = js ''Sorry, I encountered an error. Please try again.''"

definition theme_toggle :: "page \<Rightarrow> page" where
  "theme_toggle p =
     (let d = \<not> dark p in p\<lparr>dark := d, toggle_text := (if d then sun_icon else moon_icon)\<rparr>)"

definition dispatch :: "jstr \<Rightarrow> page \<Rightarrow> page" where
  "dispatch message p =
     (case show_typing_indicator (clock p) p of
        (lid, q) \<Rightarrow>
          q\<lparr>inflight := inflight q @
               [\<lparr>loading_id = lid, request = request_body message (context_val q)\<rparr>]\<rparr>)"

definition send_message :: "jstr \<Rightarrow> bool \<Rightarrow> page \<Rightarrow> page" where
  "send_message message is_system p =
     (if message = [] \<and> \<not> is_system then p
      else if is_system then dispatch message p
      else (case add_message (Some (JStr message)) User p of
              Inl _ \<Rightarrow> p
            | Inr q \<Rightarrow> dispatch message (q\<lparr>input := []\<rparr>)))"

definition fail_path :: "jstr \<Rightarrow> page \<Rightarrow> page" where
  "fail_path lid p =
     (let q = remove_typing_indicator lid p
      in (case add_message (Some (JStr fallback_text)) Bot q of Inl _ \<Rightarrow> q | Inr r \<Rightarrow> r))"

definition settle_turn :: "jstr \<Rightarrow> reply \<Rightarrow> page \<Rightarrow> page" where
  "settle_turn lid r p =
     (case r of
        Rejected \<Rightarrow> fail_path lid p
      | Replied d \<Rightarrow>
          (case get_prop d (js ''context'') of
             Inl _ \<Rightarrow> fail_path lid p
           | Inr c \<Rightarrow>
               (let p1 = remove_typing_indicator lid (p\<lparr>context_val := c\<rparr>)
                in (case get_prop d (js ''response'') of
                      Inl _ \<Rightarrow> fail_path lid p1
                    | Inr t \<Rightarrow>
                        (case add_message t Bot p1 of
                           Inl _ \<Rightarrow> fail_path lid p1
                         | Inr p2 \<Rightarrow> p2)))))"

definition resume :: "nat \<Rightarrow> reply \<Rightarrow> page \<Rightarrow> page" where
  "resume i r p =
     (if i < length (inflight p)
      then settle_turn (loading_id (inflight p ! i)) r (p\<lparr>inflight := drop_at i (inflight p)\<rparr>)
      else p)"

definition start_chat :: "page \<Rightarrow> page" where
  "start_chat p = send_message [] True (p\<lparr>start_btn := False\<rparr>)"

fun step :: "page \<Rightarrow> event \<Rightarrow> page" where
  "step p ThemeClick = theme_toggle p"
| "step p StartClick = (if start_btn p then start_chat p else p)"
| "step p SendClick = send_message (input p) False p"
| "step p (KeyPress k) = (if k = js ''Enter'' then send_message (input p) False p else p)"
| "step p (Edit s) = p\<lparr>input := s\<rparr>"
| "step p (Tick t) = p\<lparr>clock := t\<rparr>"
| "step p (Resume i r) = resume i r p"
| "step p (Scroll n) = p\<lparr>scroll_top := min n (length (thread p))\<rparr>"

definition run :: "page \<Rightarrow> event list \<Rightarrow> page" where
  "run p es = foldl step p es"

definition init_page :: "elem list \<Rightarrow> bool \<Rightarrow> jstr \<Rightarrow> nat \<Rightarrow> page" where
  "init_page html btn label t0 =
     \<lparr>thread = html, scroll_top = 0, input = [], context_val = Some initial_context,
      start_btn = btn, dark = False, toggle_text = label, clock = t0, inflight = []\<rparr>"


declare theme_toggle_def [page_defs] settle_turn_def [page_defs]

lemma dispatch_eq:
  "dispatch m p =
     p\<lparr>thread := thread p @ [Typing (typing_id (clock p))],
       scroll_top := Suc (length (thread p)),
       inflight := inflight p @ [\<lparr>loading_id = typing_id (clock p), request = request_body m (context_val p)\<rparr>]\<rparr>"
  by (simp add: dispatch_def scroll_to_bottom_def)

lemma send_message_user_eq:
  "m \<noteq> [] \<Longrightarrow> send_message m False p =
     p\<lparr>thread := thread p @ [Message User (format_text m), Typing (typing_id (clock p))],
       scroll_top := Suc (Suc (length (thread p))), input := [],
       inflight := inflight p @ [\<lparr>loading_id = typing_id (clock p), request = request_body m (context_val p)\<rparr>]\<rparr>"
  by (simp add: send_message_def dispatch_eq scroll_to_bottom_def)

lemma fail_path_eq:
  "fail_path lid p =
     p\<lparr>thread := remove_first_typing lid (thread p) @ [Message Bot (format_text fallback_text)],
       scroll_top := Suc (length (remove_first_typing lid (thread p)))\<rparr>"
  by (simp add: fail_path_def renderer_simps)

lemma settle_ok_eq:
  "get_prop d (js ''context'') = Inr c \<Longrightarrow> get_prop d (js ''response'') = Inr (Some (JStr t)) \<Longrightarrow>
   settle_turn lid (Replied d) p =
     p\<lparr>thread := remove_first_typing lid (thread p) @ [Message Bot (format_text t)],
       scroll_top := Suc (length (remove_first_typing lid (thread p))), context_val := c\<rparr>"
  by (simp add: settle_turn_def renderer_simps)

lemma add_message_not_string:
  "\<forall>s. t \<noteq> Some (JStr s) \<Longrightarrow> add_message t who v = Inl TypeError"
  by (auto simp add: add_message_def split: option.splits json.splits)

lemma settle_bad_response_eq:
  "get_prop d (js ''context'') = Inr c \<Longrightarrow> get_prop d (js ''response'') = Inr t \<Longrightarrow>
   \<forall>s. t \<noteq> Some (JStr s) \<Longrightarrow>
   settle_turn lid (Replied d) p =
     fail_path lid (remove_typing_indicator lid (p\<lparr>context_val := c\<rparr>))"
  by (simp add: settle_turn_def add_message_not_string Let_def)

lemma settle_fail_eq:
  "r = Rejected \<or> r = Replied JNull \<Longrightarrow> settle_turn lid r p = fail_path lid p"
  by (auto simp add: settle_turn_def)

lemma step_StartClick_eq:
  "start_btn p \<Longrightarrow> step p StartClick =
     p\<lparr>thread := thread p @ [Typing (typing_id (clock p))],
       scroll_top := Suc (length (thread p)), start_btn := False,
       inflight := inflight p @ [\<lparr>loading_id = typing_id (clock p), request = request_body [] (context_val p)\<rparr>]\<rparr>"
  by (simp add: start_chat_def send_message_def dispatch_eq)

lemma demo_inflight: "inflight (send_message (js ''hello'') False (init_page [] False [] 0)) = [\<lparr>loading_id = typing_id 0, request = request_body (js ''hello'') (Some initial_context)\<rparr>]"
  by (simp add: send_message_user_eq init_page_def)

lemma demo_reply_context: "get_prop (JObj [(js ''response'', JStr (js ''Hi'')), (js ''context'', JStr (js ''GREETED''))]) (js ''context'') = Inr (Some (JStr (js ''GREETED'')))"
  by (simp add: js_def)

lemma demo_reply_response: "get_prop (JObj [(js ''response'', JStr (js ''Hi'')), (js ''context'', JStr (js ''GREETED''))]) (js ''response'') = Inr (Some (JStr (js ''Hi'')))"
  by (simp add: js_def)

text \<open>
  C1. A non-empty user message appends the user's entry and then the typing
  indicator, clears the text field, and queues exactly one request carrying
  the message and the current conversation state; nothing else changes.
\<close>

theorem send_message_user:
  assumes "m \<noteq> []"
  shows "send_message m False p =
     p\<lparr>thread := thread p @ [Message User (format_text m), Typing (typing_id (clock p))],
       scroll_top := Suc (Suc (length (thread p))), input := [],
       inflight := inflight p @ [\<lparr>loading_id = typing_id (clock p), request = request_body m (context_val p)\<rparr>]\<rparr>"
  using assms by (rule send_message_user_eq)

theorem send_message_user_witness:
  "js ''hi'' \<noteq> [] \<and> send_message (js ''hi'') False (init_page [] False [] 0) =
     (init_page [] False [] 0)\<lparr>thread := [Message User (format_text (js ''hi'')), Typing (typing_id 0)],
       scroll_top := 2, input := [],
       inflight := [\<lparr>loading_id = typing_id 0, request = request_body (js ''hi'') (Some initial_context)\<rparr>]\<rparr>"
proof -
  have h: "js ''hi'' \<noteq> []" by (simp add: js_def)
  show ?thesis using h send_message_user[OF h, of "init_page [] False [] 0"] by (simp add: init_page_def)
qed

text \<open>
  C2. An empty utterance that is not the system trigger changes nothing: no
  entry, no indicator, no request.
\<close>

theorem send_message_empty: "send_message [] False p = p"
  by (simp add: send_message_def)

text \<open>
  C3. When a reply carries a state and a string response, the stored state
  becomes the reply's state, the turn's typing indicator is removed, one bot
  entry with the normalised response is appended, and the turn is no longer
  pending.
\<close>

theorem resume_success:
  assumes "i < length (inflight p)"
    and "get_prop d (js ''context'') = Inr c" and "get_prop d (js ''response'') = Inr (Some (JStr t))"
  shows "context_val (resume i (Replied d) p) = c \<and>
    thread (resume i (Replied d) p) =
      remove_first_typing (loading_id (inflight p ! i)) (thread p) @ [Message Bot (format_text t)] \<and>
    inflight (resume i (Replied d) p) = drop_at i (inflight p) \<and>
    input (resume i (Replied d) p) = input p"
  using assms by (simp add: resume_def settle_ok_eq)

theorem resume_success_witness:
  "0 < length (inflight (send_message (js ''hello'') False (init_page [] False [] 0))) \<and>
   get_prop (JObj [(js ''response'', JStr (js ''Hi'')), (js ''context'', JStr (js ''GREETED''))]) (js ''context'') = Inr (Some (JStr (js ''GREETED''))) \<and>
   get_prop (JObj [(js ''response'', JStr (js ''Hi'')), (js ''context'', JStr (js ''GREETED''))]) (js ''response'') = Inr (Some (JStr (js ''Hi''))) \<and>
   context_val (resume 0 (Replied (JObj [(js ''response'', JStr (js ''Hi'')), (js ''context'', JStr (js ''GREETED''))])) (send_message (js ''hello'') False (init_page [] False [] 0))) = Some (JStr (js ''GREETED''))"
proof -
  have h: "0 < length (inflight (send_message (js ''hello'') False (init_page [] False [] 0)))" by (simp add: demo_inflight)
  show ?thesis
    using resume_success[OF h demo_reply_context demo_reply_response] h demo_reply_context demo_reply_response
    by blast
qed

text \<open>
  C4. On a transport failure (or a \<open>null\<close> body, whose \<open>context\<close> read
  throws), the typing indicator is removed, exactly one bot entry with the
  fixed fallback text is appended, and the stored state keeps its value.
\<close>

theorem resume_failure:
  assumes "i < length (inflight p)" and "r = Rejected \<or> r = Replied JNull"
  shows "context_val (resume i r p) = context_val p \<and>
    thread (resume i r p) =
      remove_first_typing (loading_id (inflight p ! i)) (thread p) @ [Message Bot (format_text fallback_text)] \<and>
    inflight (resume i r p) = drop_at i (inflight p)"
  using assms by (simp add: resume_def settle_fail_eq fail_path_eq)

theorem resume_failure_witness:
  "0 < length (inflight (send_message (js ''hello'') False (init_page [] False [] 0))) \<and> (Rejected = Rejected \<or> Rejected = Replied JNull) \<and>
   context_val (resume 0 Rejected (send_message (js ''hello'') False (init_page [] False [] 0))) = context_val (send_message (js ''hello'') False (init_page [] False [] 0))"
proof -
  have h: "0 < length (inflight (send_message (js ''hello'') False (init_page [] False [] 0)))" by (simp add: demo_inflight)
  have r: "Rejected = Rejected \<or> Rejected = Replied JNull" by simp
  show ?thesis using resume_failure[OF h r] h r by blast
qed

text \<open>
  C5. Round trip of the conversation state: after a reply that carries state
  \<open>c\<close>, the service reads back from the very next request exactly
  \<open>c\<close> as its \<open>context\<close> and the new utterance as its \<open>message\<close>.
\<close>

theorem context_roundtrip:
  assumes "i < length (inflight p)"
    and "get_prop d (js ''context'') = Inr c" and "get_prop d (js ''response'') = Inr (Some (JStr t))"
    and "m \<noteq> []"
  shows "body_context (request (last (inflight (send_message m False (resume i (Replied d) p))))) = c \<and>
    get_prop (request (last (inflight (send_message m False (resume i (Replied d) p))))) (js ''message'') =
      Inr (Some (JStr m))"
  using assms by (simp add: resume_def settle_ok_eq send_message_user_eq)

theorem context_roundtrip_witness:
  "0 < length (inflight (send_message (js ''hello'') False (init_page [] False [] 0))) \<and>
   get_prop (JObj [(js ''response'', JStr (js ''Hi'')), (js ''context'', JStr (js ''GREETED''))]) (js ''context'') = Inr (Some (JStr (js ''GREETED''))) \<and>
   get_prop (JObj [(js ''response'', JStr (js ''Hi'')), (js ''context'', JStr (js ''GREETED''))]) (js ''response'') = Inr (Some (JStr (js ''Hi''))) \<and> js ''next'' \<noteq> [] \<and>
   body_context (request (last (inflight (send_message (js ''next'') False (resume 0 (Replied (JObj [(js ''response'', JStr (js ''Hi'')), (js ''context'', JStr (js ''GREETED''))])) (send_message (js ''hello'') False (init_page [] False [] 0))))))) =
     Some (JStr (js ''GREETED''))"
proof -
  have h: "0 < length (inflight (send_message (js ''hello'') False (init_page [] False [] 0)))" by (simp add: demo_inflight)
  have m: "js ''next'' \<noteq> []" by (simp add: js_def)
  show ?thesis
    using context_roundtrip[OF h demo_reply_context demo_reply_response m] h m demo_reply_context demo_reply_response
    by blast
qed

text \<open>
  C10. The start trigger removes the start button and queues exactly one request
  whose message is empty, adding the typing indicator but no user entry; a
  second click finds no button and does nothing.
\<close>

theorem start_chat_once:
  assumes "start_btn p"
  shows "step p StartClick =
     p\<lparr>thread := thread p @ [Typing (typing_id (clock p))],
       scroll_top := Suc (length (thread p)), start_btn := False,
       inflight := inflight p @ [\<lparr>loading_id = typing_id (clock p), request = request_body [] (context_val p)\<rparr>]\<rparr> \<and>
     step (step p StartClick) StartClick = step p StartClick"
proof -
  note e = step_StartClick_eq[OF assms]
  show ?thesis by (simp only: e) simp
qed

theorem start_chat_once_witness:
  "start_btn (init_page [] True [] 5) \<and>
   step (step (init_page [] True [] 5) StartClick) StartClick = step (init_page [] True [] 5) StartClick"
proof -
  have h: "start_btn (init_page [] True [] 5)" by (simp add: init_page_def)
  show ?thesis using start_chat_once[OF h] h by blast
qed

text \<open>
  C14. A reply whose \<open>response\<close> is not a string (missing, \<open>null\<close>, a number,
  an object) still replaces the stored state with the reply's \<open>context\<close>,
  although the fallback entry is shown: the state is assigned before
  \<open>addMessage\<close> throws.  The catch block then removes an indicator with the
  turn's id a second time.
\<close>

theorem resume_malformed:
  assumes "i < length (inflight p)"
    and "get_prop d (js ''context'') = Inr c" and "get_prop d (js ''response'') = Inr t"
    and "\<forall>s. t \<noteq> Some (JStr s)"
  shows "context_val (resume i (Replied d) p) = c \<and>
    thread (resume i (Replied d) p) =
      remove_first_typing (loading_id (inflight p ! i))
        (remove_first_typing (loading_id (inflight p ! i)) (thread p)) @
      [Message Bot (format_text fallback_text)]"
  using assms by (simp add: resume_def settle_bad_response_eq fail_path_eq remove_typing_indicator_def)

theorem resume_malformed_witness:
  "0 < length (inflight (send_message (js ''hello'') False (init_page [] False [] 0))) \<and>
   get_prop (JObj [(js ''error'', JStr (js ''boom''))]) (js ''context'') = Inr None \<and>
   get_prop (JObj [(js ''error'', JStr (js ''boom''))]) (js ''response'') = Inr None \<and>
   (\<forall>s. (None :: jsval) \<noteq> Some (JStr s)) \<and>
   context_val (resume 0 (Replied (JObj [(js ''error'', JStr (js ''boom''))])) (send_message (js ''hello'') False (init_page [] False [] 0))) = None"
proof -
  have h: "0 < length (inflight (send_message (js ''hello'') False (init_page [] False [] 0)))" by (simp add: demo_inflight)
  have c: "get_prop (JObj [(js ''error'', JStr (js ''boom''))]) (js ''context'') = Inr None"
    by (simp add: js_def)
  have r: "get_prop (JObj [(js ''error'', JStr (js ''boom''))]) (js ''response'') = Inr None"
    by (simp add: js_def)
  have n: "\<forall>s. (None :: jsval) \<noteq> Some (JStr s)" by simp
  show ?thesis using resume_malformed[OF h c r n] h c r n by blast
qed

end
