(* ===== verification/Session.thy ===== *)
theory Session
  imports Controller
begin

text \<open>
  Runs of the page.  \<open>reachable_under ok\<close> is the set of page states reached
  from a freshly loaded page (whose markup holds no typing indicator) by
  events that the policy \<open>ok\<close> admits; with \<open>\<lambda>_ _. True\<close> every
  interleaving of user actions, clock ticks and reply arrivals is admitted,
  which is what the code allows, since nothing disables the send button or
  the Enter key while a turn is pending.  \<open>single_flight\<close> is the discipline
  the specification asks for (no submission while a turn is in flight).
  The lemmas show that every visible typing indicator belongs to a pending
  turn in every reachable state, that under the single-flight discipline
  there is at most one indicator and exactly one per pending turn, that the
  theme toggle touches nothing else, that every thread change pins the view,
  and progress: once each pending turn has been settled (\<open>settles\<close>: a
  list of index and reply pairs, each index in range when its reply
  arrives), whatever the replies and their order, no turn is pending and no
  indicator is left.  What goes wrong without the discipline is in
  \<open>Interleaving\<close> and \<open>Conversation\<close>.
\<close>

fun is_submit :: "event \<Rightarrow> bool" where
  "is_submit SendClick = True"
| "is_submit StartClick = True"
| "is_submit (KeyPress k) = (k = js ''Enter'')"
| "is_submit _ = False"

definition single_flight :: "page \<Rightarrow> event \<Rightarrow> bool" where
  "single_flight p e \<longleftrightarrow> \<not> is_submit e \<or> inflight p = []"

inductive reachable_under :: "(page \<Rightarrow> event \<Rightarrow> bool) \<Rightarrow> page \<Rightarrow> bool" for ok where
  init: "typing_ids html = [] \<Longrightarrow> reachable_under ok (init_page html btn label t0)"
| move: "reachable_under ok p \<Longrightarrow> ok p e \<Longrightarrow> reachable_under ok (step p e)"

definition owned :: "page \<Rightarrow> bool" where
  "owned p \<longleftrightarrow> mset (typing_ids (thread p)) \<subseteq># mset (map loading_id (inflight p))"

definition sf_inv :: "page \<Rightarrow> bool" where
  "sf_inv p \<longleftrightarrow> length (inflight p) \<le> 1 \<and> typing_ids (thread p) = map loading_id (inflight p)"

fun settles :: "page \<Rightarrow> (nat \<times> reply) list \<Rightarrow> bool" where
  "settles p [] = True"
| "settles p ((i, r) # xs) \<longleftrightarrow> i < length (inflight p) \<and> settles (resume i r p) xs"

definition replies :: "(nat \<times> reply) list \<Rightarrow> event list" where
  "replies xs = map (\<lambda>(i, r). Resume i r) xs"

lemma mset_diff_mono: "(A::'a multiset) \<subseteq># B \<Longrightarrow> A - C \<subseteq># B - C"
  by (auto simp add: subseteq_mset_def intro: diff_le_mono)

lemma theme_toggle_frame [simp]:
  "thread (theme_toggle p) = thread p" "inflight (theme_toggle p) = inflight p"
  "context_val (theme_toggle p) = context_val p"
  by (simp_all add: page_defs Let_def)

lemma send_message_cases:
  "send_message m b p = p \<or>
   (typing_ids (thread (send_message m b p)) = typing_ids (thread p) @ [typing_id (clock p)] \<and>
    map loading_id (inflight (send_message m b p)) = map loading_id (inflight p) @ [typing_id (clock p)] \<and>
    pinned (send_message m b p))"
  by (auto simp add: send_message_def dispatch_eq pinned_def scroll_to_bottom_def)

lemma fail_path_typing [simp]:
  "typing_ids (thread (fail_path lid p)) = remove1 lid (typing_ids (thread p))"
  "inflight (fail_path lid p) = inflight p"
  by (simp_all add: fail_path_eq)

lemma settle_turn_typing:
  "typing_ids (thread (settle_turn lid r p)) = remove1 lid (typing_ids (thread p)) \<or>
   typing_ids (thread (settle_turn lid r p)) = remove1 lid (remove1 lid (typing_ids (thread p)))"
  by (auto simp add: page_defs Let_def renderer_simps split: reply.splits sum.splits option.splits json.splits)

lemma settle_turn_inflight [simp]: "inflight (settle_turn lid r p) = inflight p"
  by (auto simp add: page_defs Let_def renderer_simps split: reply.splits sum.splits option.splits json.splits)

lemma pinned_settle_turn: "pinned (settle_turn lid r p)"
  by (auto simp add: page_defs fail_path_def Let_def renderer_simps pinned_def
      split: reply.splits sum.splits option.splits json.splits)

lemma settle_turn_typing_sub:
  "mset (typing_ids (thread (settle_turn lid r p))) \<subseteq># mset (typing_ids (thread p)) - {#lid#}"
proof -
  have "mset (remove1 lid (remove1 lid xs)) \<subseteq># mset (remove1 lid xs)" for xs :: "jstr list"
    by (simp only: mset_remove1[of lid "remove1 lid xs"] diff_subset_eq_self)
  then show ?thesis using settle_turn_typing[of lid r p] by auto
qed

lemma owned_send:
  assumes o: "owned p"
  shows "owned (send_message m b p)"
proof (cases "send_message m b p = p")
  case True
  with o show ?thesis by simp
next
  case False
  let ?q = "send_message m b p" and ?x = "typing_id (clock p)"
  from False send_message_cases[of m b p]
  have e1: "typing_ids (thread ?q) = typing_ids (thread p) @ [?x]"
    and e2: "map loading_id (inflight ?q) = map loading_id (inflight p) @ [?x]" by auto
  have "mset (typing_ids (thread ?q)) = add_mset ?x (mset (typing_ids (thread p)))"
    using e1 by simp
  moreover have "mset (map loading_id (inflight ?q)) = add_mset ?x (mset (map loading_id (inflight p)))"
    using arg_cong[OF e2, of mset] by simp
  ultimately show ?thesis using o by (simp add: owned_def)
qed

lemma owned_step: "owned p \<Longrightarrow> owned (step p e)"
proof (cases e)
  case (Resume i r)
  assume o: "owned p"
  show ?thesis
  proof (cases "i < length (inflight p)")
    case True
    let ?lid = "loading_id (inflight p ! i)"
    let ?q = "p\<lparr>inflight := drop_at i (inflight p)\<rparr>"
    have "mset (typing_ids (thread (settle_turn ?lid r ?q))) \<subseteq># mset (typing_ids (thread p)) - {#?lid#}"
      using settle_turn_typing_sub[of ?lid r ?q] by simp
    also have "\<dots> \<subseteq># mset (map loading_id (inflight p)) - {#?lid#}"
      using o by (simp add: owned_def mset_diff_mono)
    also have "\<dots> = mset (map loading_id (drop_at i (inflight p)))"
      using True by (simp add: map_drop_at mset_drop_at)
    finally show ?thesis using Resume True by (simp add: owned_def resume_def)
  next
    case False
    with o Resume show ?thesis by (simp add: resume_def)
  qed
next
  case StartClick
  assume o: "owned p"
  then have "owned (p\<lparr>start_btn := False\<rparr>)" by (simp add: owned_def)
  with StartClick o show ?thesis by (simp add: start_chat_def owned_send)
qed (simp_all add: owned_send, simp_all add: owned_def)


lemma owned_init: "typing_ids html = [] \<Longrightarrow> owned (init_page html btn label t0)"
  by (simp add: owned_def init_page_def)

text \<open>
  C8. In every reachable state, under any policy, the typing indicators on
  the page are a sub-multiset of the pending turns' ids: no indicator outlives
  its turn.
\<close>

theorem placeholders_owned:
  assumes "reachable_under ok p"
  shows "mset (typing_ids (thread p)) \<subseteq># mset (map loading_id (inflight p))"
proof -
  from assms have "owned p"
    by (induction rule: reachable_under.induct) (simp_all add: owned_init owned_step)
  then show ?thesis by (simp add: owned_def)
qed

theorem placeholders_owned_witness:
  "reachable_under (\<lambda>_ _. True) (init_page [] False [] 0) \<and>
   mset (typing_ids (thread (init_page [] False [] 0))) \<subseteq>#
   mset (map loading_id (inflight (init_page [] False [] 0)))"
proof -
  have r: "reachable_under (\<lambda>_ _. True) (init_page [] False [] 0)"
    by (rule reachable_under.init) simp
  show ?thesis using r placeholders_owned[OF r] by blast
qed

lemma sf_send:
  assumes "sf_inv p" and "inflight p = []"
  shows "sf_inv (send_message m b p)"
proof -
  from assms have t: "typing_ids (thread p) = []" by (simp add: sf_inv_def)
  have l: "length (map loading_id (inflight (send_message m b p))) \<le> 1 \<and>
      typing_ids (thread (send_message m b p)) = map loading_id (inflight (send_message m b p))"
    using send_message_cases[of m b p] assms(2) t by auto
  then show ?thesis by (simp add: sf_inv_def)
qed

lemma sf_resume:
  assumes s: "sf_inv p"
  shows "sf_inv (resume i r p)"
proof (cases "i < length (inflight p)")
  case True
  with s obtain t where ip: "inflight p = [t]" and i: "i = 0"
    by (cases "inflight p") (auto simp add: sf_inv_def)
  with s have ts: "typing_ids (thread p) = [loading_id t]" by (simp add: sf_inv_def)
  let ?q = "p\<lparr>inflight := drop_at i (inflight p)\<rparr>"
  have "typing_ids (thread (settle_turn (loading_id t) r ?q)) = []"
    using settle_turn_typing[of "loading_id t" r ?q] ts by auto
  with ip i show ?thesis by (simp add: resume_def sf_inv_def)
next
  case False
  with s show ?thesis by (simp add: resume_def)
qed

lemma sf_step: "sf_inv p \<Longrightarrow> single_flight p e \<Longrightarrow> sf_inv (step p e)"
proof (cases e)
  case StartClick
  assume s: "sf_inv p" and f: "single_flight p e"
  with StartClick have "inflight p = []" by (simp add: single_flight_def)
  moreover from s have "sf_inv (p\<lparr>start_btn := False\<rparr>)" by (simp add: sf_inv_def)
  ultimately show ?thesis using StartClick s by (simp add: start_chat_def sf_send)
qed (auto simp add: single_flight_def sf_send sf_resume, auto simp add: sf_inv_def)

text \<open>
  C7. Under the single-flight discipline the page shows at most one typing
  indicator, and it shows one exactly while a turn is pending.
\<close>

theorem single_flight_placeholder:
  assumes "reachable_under single_flight p"
  shows "length (typing_ids (thread p)) \<le> 1 \<and> length (typing_ids (thread p)) = length (inflight p)"
proof -
  from assms have "sf_inv p"
  proof (induction rule: reachable_under.induct)
    case (init html btn label t0)
    then show ?case by (simp add: sf_inv_def init_page_def)
  next
    case (move p e)
    then show ?case by (simp add: sf_step)
  qed
  then show ?thesis by (simp add: sf_inv_def)
qed

lemma run_Cons: "run p (e # es) = run (step p e) es"
  by (simp add: run_def)

lemma run_Nil: "run p [] = p"
  by (simp add: run_def)

theorem single_flight_placeholder_witness:
  "reachable_under single_flight (step (step (init_page [] False [] 0) (Edit (js ''hi''))) SendClick) \<and>
   length (typing_ids (thread (step (step (init_page [] False [] 0) (Edit (js ''hi''))) SendClick))) \<le> 1 \<and>
   length (typing_ids (thread (step (step (init_page [] False [] 0) (Edit (js ''hi''))) SendClick))) =
   length (inflight (step (step (init_page [] False [] 0) (Edit (js ''hi''))) SendClick))"
proof -
  have r0: "reachable_under single_flight (init_page [] False [] 0)"
    by (rule reachable_under.init) simp
  have r1: "reachable_under single_flight (step (init_page [] False [] 0) (Edit (js ''hi'')))"
    by (rule reachable_under.move[OF r0]) (simp add: single_flight_def)
  have r2: "reachable_under single_flight (step (step (init_page [] False [] 0) (Edit (js ''hi''))) SendClick)"
    by (rule reachable_under.move[OF r1]) (simp add: single_flight_def init_page_def)
  show ?thesis using r2 single_flight_placeholder[OF r2] by blast
qed


text \<open>
  C25. The theme toggle flips the dark mode, sets the matching icon and
  changes nothing else of the page, the conversation state included.
\<close>

theorem theme_click_only_theme:
  "dark (step p ThemeClick) = (\<not> dark p) \<and>
   toggle_text (step p ThemeClick) = (if dark p then moon_icon else sun_icon) \<and>
   (step p ThemeClick)\<lparr>dark := dark p, toggle_text := toggle_text p\<rparr> = p"
  by (simp add: page_defs Let_def)

lemma send_message_pinned:
  "thread (send_message m b p) \<noteq> thread p \<Longrightarrow> pinned (send_message m b p)"
  using send_message_cases[of m b p] by auto

text \<open>
  C26. Every event other than the user's own scrolling that changes the thread
  leaves the view pinned to the newest entry.
\<close>

theorem pinned_after_change:
  assumes "\<forall>n. e \<noteq> Scroll n" and "thread (step p e) \<noteq> thread p"
  shows "pinned (step p e)"
proof (cases e)
  case StartClick
  with assms(2) have b: "start_btn p" by (cases "start_btn p") simp_all
  with assms(2) StartClick have "thread (send_message [] True (p\<lparr>start_btn := False\<rparr>)) \<noteq> thread (p\<lparr>start_btn := False\<rparr>)"
    by (simp add: start_chat_def)
  then have "pinned (send_message [] True (p\<lparr>start_btn := False\<rparr>))" by (rule send_message_pinned)
  with StartClick b show ?thesis by (simp add: start_chat_def)
next
  case (Resume i r)
  with assms(2) have "i < length (inflight p)" by (cases "i < length (inflight p)") (simp_all add: resume_def)
  with Resume show ?thesis by (simp add: resume_def pinned_settle_turn)
next
  case (KeyPress k)
  with assms(2) show ?thesis by (cases "k = js ''Enter''") (simp_all add: send_message_pinned)
qed (use assms in \<open>simp_all add: send_message_pinned\<close>)

theorem pinned_after_change_witness:
  "(\<forall>n. SendClick \<noteq> Scroll n) \<and>
   thread (step ((init_page [] False [] 0)\<lparr>input := js ''hi''\<rparr>) SendClick) \<noteq>
     thread ((init_page [] False [] 0)\<lparr>input := js ''hi''\<rparr>) \<and>
   pinned (step ((init_page [] False [] 0)\<lparr>input := js ''hi''\<rparr>) SendClick)"
proof -
  have a: "\<forall>n. SendClick \<noteq> Scroll n" by simp
  have b: "thread (step ((init_page [] False [] 0)\<lparr>input := js ''hi''\<rparr>) SendClick) \<noteq>
     thread ((init_page [] False [] 0)\<lparr>input := js ''hi''\<rparr>)"
    by (simp add: send_message_user_eq init_page_def)
  show ?thesis using a b pinned_after_change[OF a b] by blast
qed

lemma owned_run: "owned p \<Longrightarrow> owned (run p es)"
  by (induction es arbitrary: p) (simp_all add: run_Cons run_Nil owned_step)

lemma settles_length:
  "settles p xs \<Longrightarrow> length (inflight (run p (replies xs))) = length (inflight p) - length xs"
proof (induction p xs rule: settles.induct)
  case (2 p i r xs)
  then have "length (inflight (resume i r p)) = length (inflight p) - 1" by (simp add: resume_def)
  then show ?case using 2 by (simp add: replies_def run_Cons)
qed (simp add: replies_def run_Nil)

text \<open>
  C9. Progress: from every reachable page, once each pending turn has been
  settled by a reply, whatever the replies are and in whatever order they
  arrive, no turn is pending and no typing indicator is left on the page.
\<close>

theorem all_replies_clear_indicators:
  assumes "reachable_under ok p" and "settles p xs" and "length xs = length (inflight p)"
  shows "inflight (run p (replies xs)) = [] \<and> typing_ids (thread (run p (replies xs))) = []"
proof -
  from assms(1) have "owned p"
    by (induction rule: reachable_under.induct) (simp_all add: owned_init owned_step)
  then have "owned (run p (replies xs))" by (rule owned_run)
  moreover have "inflight (run p (replies xs)) = []" using settles_length[OF assms(2)] assms(3) by simp
  ultimately show ?thesis by (simp add: owned_def)
qed

theorem all_replies_clear_indicators_witness:
  "reachable_under (\<lambda>_ _. True)
     (run (init_page [] False [] 0) [Edit (js ''a''), SendClick, Tick 1, Edit (js ''b''), SendClick]) \<and>
   settles (run (init_page [] False [] 0) [Edit (js ''a''), SendClick, Tick 1, Edit (js ''b''), SendClick])
     [(1, Replied (JObj [(js ''context'', JNull)])), (0, Rejected)] \<and>
   length [(1::nat, Replied (JObj [(js ''context'', JNull)])), (0, Rejected)] =
     length (inflight (run (init_page [] False [] 0) [Edit (js ''a''), SendClick, Tick 1, Edit (js ''b''), SendClick])) \<and>
   inflight (run (run (init_page [] False [] 0) [Edit (js ''a''), SendClick, Tick 1, Edit (js ''b''), SendClick])
     (replies [(1, Replied (JObj [(js ''context'', JNull)])), (0, Rejected)])) = [] \<and>
   typing_ids (thread (run (run (init_page [] False [] 0) [Edit (js ''a''), SendClick, Tick 1, Edit (js ''b''), SendClick])
     (replies [(1, Replied (JObj [(js ''context'', JNull)])), (0, Rejected)]))) = []"
proof -
  let ?p = "run (init_page [] False [] 0) [Edit (js ''a''), SendClick, Tick 1, Edit (js ''b''), SendClick]"
  let ?xs = "[(1::nat, Replied (JObj [(js ''context'', JNull)])), (0, Rejected)]"
  have r: "reachable_under (\<lambda>_ _. True) ?p"
    unfolding run_def foldl.simps by (intro reachable_under.move reachable_under.init) simp_all
  have i: "inflight ?p = [\<lparr>loading_id = typing_id 0, request = request_body (js ''a'') (Some initial_context)\<rparr>,
                            \<lparr>loading_id = typing_id 1, request = request_body (js ''b'') (Some initial_context)\<rparr>]"
    by (simp add: run_Cons run_Nil init_page_def send_message_user_eq)
  have s: "settles ?p ?xs" using i by (simp add: resume_def drop_at_def)
  have l: "length ?xs = length (inflight ?p)" using i by simp
  show ?thesis using r s l all_replies_clear_indicators[OF r s l] by blast
qed
end
