(* ===== verification/JsonText.thy ===== *)
theory JsonText
  imports Json
begin

text \<open>
  The textual JSON layer the page script relies on: \<open>JSON.stringify\<close>, which
  builds the request body (line 39 of \<open>src/static/script.js\<close>), and
  \<open>JSON.parse\<close>, which \<open>response.json()\<close> applies to the reply's body
  (line 45).  Both are browser built-ins, modelled here from the
  ECMAScript specification on strings of UTF-16 code units.

  \<open>stringify\<close> writes no whitespace; a string is quoted with
  \<open>QuoteJSONString\<close>'s escapes (the short escapes for backspace, tab, line
  feed, form feed, carriage return, quote and backslash; \<open>\u\<close> with four
  lower-case hex digits for the other control units and for lone surrogates,
  while a well-formed surrogate pair is copied).  An object's members come in
  the order of the JavaScript object's own keys: array-index keys (canonical
  decimal strings below \<open>2^32 - 1\<close>) in ascending numeric order, then the
  other keys in insertion order (\<open>js_order\<close>).

  \<open>json_parse\<close> follows the JSON grammar: whitespace is space, tab, LF and
  CR; the short escapes and \<open>\uXXXX\<close> (hex digits of either case) in
  strings; raw control units in strings are errors.  A duplicate key keeps
  its first position and takes the last value (\<open>obj_put\<close>, as
  \<open>CreateDataProperty\<close> does), and the finished object is ordered as
  JavaScript enumerates it.  Numbers: the model's JSON numbers are integers,
  which a double holds exactly up to \<open>2^53\<close>; a number with a fraction or
  an exponent, or of larger magnitude, is reported as \<open>Unsupported\<close>,
  meaning outside the model, not as an error of the real parser.  The
  parser is a mutual recursion with a fuel argument; \<open>json_parse\<close> gives
  it \<open>2 * length s + 2\<close>, which the lemmas show is always enough.
\<close>

datatype perr = SyntaxError | Unsupported | NoFuel

definition json_ws :: "16 word \<Rightarrow> bool" where
  "json_ws c \<longleftrightarrow> c = 0x20 \<or> c = 9 \<or> c = 10 \<or> c = 13"

definition skip_ws :: "jstr \<Rightarrow> jstr" where
  "skip_ws s = dropWhile json_ws s"

definition hex_digit :: "nat \<Rightarrow> 16 word" where
  "hex_digit d = (if d < 10 then 48 + of_nat d else 87 + of_nat d)"

definition hex4 :: "16 word \<Rightarrow> jstr" where
  "hex4 c = map (\<lambda>k. hex_digit (unat c div 16 ^ k mod 16)) [3, 2, 1, 0]"

definition hex_val :: "16 word \<Rightarrow> nat option" where
  "hex_val c =
     (if 48 \<le> c \<and> c \<le> 57 then Some (unat c - 48)
      else if 97 \<le> c \<and> c \<le> 102 then Some (unat c - 87)
      else if 65 \<le> c \<and> c \<le> 70 then Some (unat c - 55)
      else None)"

definition p_hex4 :: "jstr \<Rightarrow> 16 word option" where
  "p_hex4 s =
     (if 4 \<le> length s
      then map_option (\<lambda>ds. of_nat (foldl (\<lambda>a d. 16 * a + d) 0 ds)) (those (map hex_val (take 4 s)))
      else None)"

definition is_high :: "16 word \<Rightarrow> bool" where
  "is_high c \<longleftrightarrow> 0xD800 \<le> c \<and> c \<le> 0xDBFF"

definition is_low :: "16 word \<Rightarrow> bool" where
  "is_low c \<longleftrightarrow> 0xDC00 \<le> c \<and> c \<le> 0xDFFF"

definition esc_unit :: "16 word \<Rightarrow> jstr" where
  "esc_unit c =
     (if c = 8 then [92, 98] else if c = 9 then [92, 116] else if c = 10 then [92, 110]
      else if c = 12 then [92, 102] else if c = 13 then [92, 114]
      else if c = 34 then [92, 34] else if c = 92 then [92, 92]
      else if c < 32 \<or> is_high c \<or> is_low c then [92, 117] @ hex4 c
      else [c])"

fun esc :: "jstr \<Rightarrow> jstr" where
  "esc [] = []"
| "esc [c] = esc_unit c"
| "esc (c # d # cs) = (if is_high c \<and> is_low d then c # d # esc cs else esc_unit c @ esc (d # cs))"

definition quote :: "jstr \<Rightarrow> jstr" where
  "quote s = 34 # esc s @ [34]"

definition print_int :: "int \<Rightarrow> jstr" where
  "print_int n = (if n < 0 then 45 # dec (nat (- n)) else dec (nat n))"

definition array_index :: "jstr \<Rightarrow> nat option" where
  "array_index k =
     (case parse_dec k of
        Some n \<Rightarrow> if dec n = k \<and> n < 4294967295 then Some n else None
      | None \<Rightarrow> None)"

definition js_order :: "(jstr \<times> json) list \<Rightarrow> (jstr \<times> json) list" where
  "js_order kvs =
     sort_key (\<lambda>kv. the (array_index (fst kv))) (filter (\<lambda>kv. array_index (fst kv) \<noteq> None) kvs) @
     filter (\<lambda>kv. array_index (fst kv) = None) kvs"

fun obj_put :: "(jstr \<times> json) list \<Rightarrow> jstr \<Rightarrow> json \<Rightarrow> (jstr \<times> json) list" where
  "obj_put [] k v = [(k, v)]"
| "obj_put ((k', v') # kvs) k v = (if k' = k then (k, v) # kvs else (k', v') # obj_put kvs k v)"

fun join_commas :: "jstr list \<Rightarrow> jstr" where
  "join_commas [] = []"
| "join_commas [x] = x"
| "join_commas (x # y # xs) = x @ 44 # join_commas (y # xs)"

fun stringify :: "json \<Rightarrow> jstr" where
  "stringify JNull = js ''null''"
| "stringify (JBool b) = (if b then js ''true'' else js ''false'')"
| "stringify (JNum n) = print_int n"
| "stringify (JStr s) = quote s"
| "stringify (JArr vs) = 91 # join_commas (map stringify vs) @ [93]"
| "stringify (JObj kvs) = 123 # join_commas (map (\<lambda>kv. quote (fst kv) @ 58 # stringify (snd kv)) kvs) @ [125]"

definition unescape :: "16 word \<Rightarrow> 16 word option" where
  "unescape e =
     (if e = 34 then Some 34 else if e = 92 then Some 92 else if e = 47 then Some 47
      else if e = 98 then Some 8 else if e = 102 then Some 12 else if e = 110 then Some 10
      else if e = 114 then Some 13 else if e = 116 then Some 9 else None)"

definition cons_res :: "16 word \<Rightarrow> perr + (jstr \<times> jstr) \<Rightarrow> perr + (jstr \<times> jstr)" where
  "cons_res u x = (case x of Inl e \<Rightarrow> Inl e | Inr (s, r) \<Rightarrow> Inr (u # s, r))"

fun p_str :: "jstr \<Rightarrow> perr + (jstr \<times> jstr)" where
  "p_str [] = Inl SyntaxError"
| "p_str (c # cs) =
     (if c = 34 then Inr ([], cs)
      else if c = 92 then
        (case cs of
           [] \<Rightarrow> Inl SyntaxError
         | e # r \<Rightarrow>
             (case unescape e of
                Some u \<Rightarrow> cons_res u (p_str r)
              | None \<Rightarrow>
                  (if e = 117 then
                     (case p_hex4 r of
                        Some u \<Rightarrow> cons_res u (p_str (drop 4 r))
                      | None \<Rightarrow> Inl SyntaxError)
                   else Inl SyntaxError)))
      else if c < 32 then Inl SyntaxError
      else cons_res c (p_str cs))"

definition digits_val :: "jstr \<Rightarrow> nat" where
  "digits_val ds = foldl (\<lambda>a c. 10 * a + (unat c - 48)) 0 ds"

definition p_num :: "jstr \<Rightarrow> perr + (json \<times> jstr)" where
  "p_num s =
     (let neg = (s \<noteq> [] \<and> hd s = 45); t = (if neg then tl s else s)
      in if t = [] \<or> \<not> is_digit (hd t) then Inl SyntaxError
         else
           (let ds = (if hd t = 48 then [48] else takeWhile is_digit t);
                r = drop (length ds) t; n = digits_val ds
            in if r \<noteq> [] \<and> (hd r = 46 \<or> hd r = 101 \<or> hd r = 69) then Inl Unsupported
               else if 2 ^ 53 < n then Inl Unsupported
               else Inr (JNum (if neg then - int n else int n), r)))"

definition p_lit :: "jstr \<Rightarrow> perr + (json \<times> jstr)" where
  "p_lit s =
     (if take 4 s = js ''null'' then Inr (JNull, drop 4 s)
      else if take 4 s = js ''true'' then Inr (JBool True, drop 4 s)
      else if take 5 s = js ''false'' then Inr (JBool False, drop 5 s)
      else Inl SyntaxError)"

fun p_value :: "nat \<Rightarrow> jstr \<Rightarrow> perr + (json \<times> jstr)"
and p_elems :: "nat \<Rightarrow> json list \<Rightarrow> jstr \<Rightarrow> perr + (json \<times> jstr)"
and p_members :: "nat \<Rightarrow> (jstr \<times> json) list \<Rightarrow> jstr \<Rightarrow> perr + (json \<times> jstr)" where
  "p_value 0 s = Inl NoFuel"
| "p_value (Suc f) s =
     (case s of
        [] \<Rightarrow> Inl SyntaxError
      | c # cs \<Rightarrow>
          (if c = 123 then
             (let r = skip_ws cs in
              if r \<noteq> [] \<and> hd r = 125 then Inr (JObj [], tl r) else p_members f [] r)
           else if c = 91 then
             (let r = skip_ws cs in
              if r \<noteq> [] \<and> hd r = 93 then Inr (JArr [], tl r) else p_elems f [] r)
           else if c = 34 then
             (case p_str cs of Inl e \<Rightarrow> Inl e | Inr (t, r) \<Rightarrow> Inr (JStr t, r))
           else if c = 45 \<or> is_digit c then p_num s
           else p_lit s))"
| "p_elems 0 acc s = Inl NoFuel"
| "p_elems (Suc f) acc s =
     (case p_value f s of
        Inl e \<Rightarrow> Inl e
      | Inr (v, r) \<Rightarrow>
          (let r' = skip_ws r in
           if r' \<noteq> [] \<and> hd r' = 44 then p_elems f (acc @ [v]) (skip_ws (tl r'))
           else if r' \<noteq> [] \<and> hd r' = 93 then Inr (JArr (acc @ [v]), tl r')
           else Inl SyntaxError))"
| "p_members 0 acc s = Inl NoFuel"
| "p_members (Suc f) acc s =
     (if s \<noteq> [] \<and> hd s = 34 then
        (case p_str (tl s) of
           Inl e \<Rightarrow> Inl e
         | Inr (k, r) \<Rightarrow>
             (let r1 = skip_ws r in
              if r1 \<noteq> [] \<and> hd r1 = 58 then
                (case p_value f (skip_ws (tl r1)) of
                   Inl e \<Rightarrow> Inl e
                 | Inr (v, r2) \<Rightarrow>
                     (let r3 = skip_ws r2 in
                      if r3 \<noteq> [] \<and> hd r3 = 44 then p_members f (obj_put acc k v) (skip_ws (tl r3))
                      else if r3 \<noteq> [] \<and> hd r3 = 125 then Inr (JObj (js_order (obj_put acc k v)), tl r3)
                      else Inl SyntaxError))
              else Inl SyntaxError))
      else Inl SyntaxError)"

definition json_parse :: "jstr \<Rightarrow> perr + json" where
  "json_parse s =
     (case p_value (2 * length s + 2) (skip_ws s) of
        Inl e \<Rightarrow> Inl e
      | Inr (v, r) \<Rightarrow> if skip_ws r = [] then Inr v else Inl SyntaxError)"

fun wf_json :: "json \<Rightarrow> bool" where
  "wf_json (JNum n) \<longleftrightarrow> \<bar>n\<bar> \<le> 2 ^ 53"
| "wf_json (JArr vs) \<longleftrightarrow> list_all wf_json vs"
| "wf_json (JObj kvs) \<longleftrightarrow>
     distinct (map fst kvs) \<and> js_order kvs = kvs \<and> list_all (\<lambda>kv. wf_json (snd kv)) kvs"
| "wf_json _ \<longleftrightarrow> True"


lemma skip_ws_len: "length (skip_ws s) \<le> length s"
  by (simp add: skip_ws_def length_dropWhile_le)

lemma cons_res_Inr: "cons_res u x = Inr (t, r) \<longleftrightarrow> (\<exists>t'. x = Inr (t', r) \<and> t = u # t')"
  by (auto simp add: cons_res_def split: sum.splits)

lemma cons_res_NoFuel [simp]: "cons_res u x = Inl e \<longleftrightarrow> x = Inl e"
  by (auto simp add: cons_res_def split: sum.splits)

lemma p_str_len: "p_str s = Inr (t, r) \<Longrightarrow> length r < length s"
proof (induction s arbitrary: t rule: p_str.induct)
  case 1
  then show ?case by simp
next
  case (2 c cs)
  show ?case
  proof (cases "c = 34 \<or> c \<noteq> 92")
    case True
    then show ?thesis using "2.prems" "2.IH"(3) by (auto simp add: cons_res_Inr split: if_splits)
  next
    case False
    then obtain e r' where cs: "cs = e # r'" using "2.prems" by (cases cs) auto
    show ?thesis
    proof (cases "unescape e")
      case (Some u)
      then show ?thesis using "2.prems" "2.IH"(2)[OF _ _ cs Some] False cs
        by (fastforce simp add: cons_res_Inr)
    next
      case None
      then show ?thesis using "2.prems" "2.IH"(1)[OF _ _ cs None] False cs
        by (fastforce simp add: cons_res_Inr split: if_splits option.splits)
    qed
  qed
qed

lemma p_num_len: "p_num s = Inr (v, r) \<Longrightarrow> length r < length s"
  by (auto simp add: p_num_def Let_def takeWhile_eq_Nil_iff split: if_splits)

lemma take_eq_len: "take n s = t \<Longrightarrow> length t = n \<Longrightarrow> n \<le> length s"
  by (metis length_take min.absorb_iff2 min.commute)

lemma p_lit_len: "p_lit s = Inr (v, r) \<Longrightarrow> length r < length s"
  by (auto simp add: p_lit_def dest!: take_eq_len split: if_splits)

lemma p_len:
  "p_value f s = Inr (v, r) \<Longrightarrow> length r < length s"
  "p_elems f acc s = Inr (v, r) \<Longrightarrow> length r < length s"
  "p_members f kvs s = Inr (v, r) \<Longrightarrow> length r < length s"
proof (induction f s and f acc s and f kvs s arbitrary: v r and v r and v r rule: p_value_p_elems_p_members.induct)
  case (2 f s)
  from "2.prems" obtain c cs where s: "s = c # cs" by (cases s) auto
  have w: "length (skip_ws cs) < length s" using skip_ws_len[of cs] s by simp
  consider (obj) "c = 123" | (arr) "c \<noteq> 123" "c = 91" | (other) "c \<noteq> 123" "c \<noteq> 91" by blast
  then show ?case
  proof cases
    case obj
    show ?thesis
    proof (cases "skip_ws cs \<noteq> [] \<and> hd (skip_ws cs) = 125")
      case True
      then show ?thesis using "2.prems" s obj w by auto
    next
      case False
      then have "p_members f [] (skip_ws cs) = Inr (v, r)" using "2.prems" s obj by (auto simp add: Let_def split: if_splits)
      then show ?thesis using "2.IH"(1)[OF s obj refl False] w by simp
    qed
  next
    case arr
    show ?thesis
    proof (cases "skip_ws cs \<noteq> [] \<and> hd (skip_ws cs) = 93")
      case True
      then show ?thesis using "2.prems" s arr w by auto
    next
      case False
      then have "p_elems f [] (skip_ws cs) = Inr (v, r)" using "2.prems" s arr by (auto simp add: Let_def split: if_splits)
      then show ?thesis using "2.IH"(2)[OF s arr refl False] w by simp
    qed
  next
    case other
    then show ?thesis using "2.prems" s p_str_len[of cs] p_num_len[of s v r] p_lit_len[of s v r]
      by (auto split: if_splits sum.splits)
  qed
next
  case (4 f acc s)
  from "4.prems" obtain x y where pv: "p_value f s = Inr (x, y)"
    by (cases "p_value f s") auto
  have ly: "length y < length s" using "4.IH"(1) pv by simp
  show ?case
  proof (cases "skip_ws y \<noteq> [] \<and> hd (skip_ws y) = 44")
    case True
    then have "p_elems f (acc @ [x]) (skip_ws (tl (skip_ws y))) = Inr (v, r)"
      using "4.prems" pv by simp
    from "4.IH"(2)[OF pv refl refl True this] show ?thesis
      using ly skip_ws_len[of y] skip_ws_len[of "tl (skip_ws y)"] by simp
  next
    case False
    then show ?thesis using "4.prems" pv ly skip_ws_len[of y]
      by (auto simp add: Let_def split: if_splits)
  qed
next
  case (6 f kvs s)
  from "6.prems" have s: "s \<noteq> [] \<and> hd s = 34" by (auto split: if_splits)
  from "6.prems" s obtain k y where ps: "p_str (tl s) = Inr (k, y)"
    by (cases "p_str (tl s)") auto
  have ly: "length y < length s" using p_str_len[OF ps] s by simp
  from "6.prems" s ps have c: "skip_ws y \<noteq> [] \<and> hd (skip_ws y) = 58"
    by (auto simp add: Let_def split: if_splits)
  from "6.prems" s ps c obtain x z where pv: "p_value f (skip_ws (tl (skip_ws y))) = Inr (x, z)"
    by (cases "p_value f (skip_ws (tl (skip_ws y)))") (auto simp add: Let_def)
  have lz: "length z < length s"
    using "6.IH"(1)[OF s ps refl refl c pv] ly skip_ws_len[of y] skip_ws_len[of "tl (skip_ws y)"] by simp
  show ?case
  proof (cases "skip_ws z \<noteq> [] \<and> hd (skip_ws z) = 44")
    case True
    then have "p_members f (obj_put kvs k x) (skip_ws (tl (skip_ws z))) = Inr (v, r)"
      using "6.prems" s ps c pv by (simp add: Let_def)
    from "6.IH"(2)[OF s ps refl refl c pv refl refl True this] show ?thesis
      using lz skip_ws_len[of z] skip_ws_len[of "tl (skip_ws z)"] by simp
  next
    case False
    then show ?thesis using "6.prems" s ps c pv lz skip_ws_len[of z]
      by (auto simp add: Let_def split: if_splits)
  qed
qed simp_all


lemma p_str_fuel: "p_str s \<noteq> Inl NoFuel"
  by (induction s rule: p_str.induct) (auto split: list.splits option.splits)

lemma p_num_fuel: "p_num s \<noteq> Inl NoFuel"
  by (simp add: p_num_def Let_def)

lemma p_lit_fuel: "p_lit s \<noteq> Inl NoFuel"
  by (simp add: p_lit_def)

lemma p_fuel:
  "2 * length s < f \<Longrightarrow> p_value f s \<noteq> Inl NoFuel"
  "2 * length s + 1 < f \<Longrightarrow> p_elems f acc s \<noteq> Inl NoFuel"
  "2 * length s + 1 < f \<Longrightarrow> p_members f kvs s \<noteq> Inl NoFuel"
proof (induction f s and f acc s and f kvs s rule: p_value_p_elems_p_members.induct)
  case (2 f s)
  show ?case
  proof (cases s)
  case Nil
  then show ?thesis by simp
  next
  case s: (Cons c cs)
  have w: "2 * length (skip_ws cs) + 1 < f" using skip_ws_len[of cs] s "2.prems" by simp
  consider (obj) "c = 123" | (arr) "c \<noteq> 123" "c = 91" | (other) "c \<noteq> 123" "c \<noteq> 91" by blast
  then show ?thesis
  proof cases
    case obj
    then show ?thesis using "2.IH"(1)[OF s obj refl _ w] s by (simp add: Let_def)
  next
    case arr
    then show ?thesis using "2.IH"(2)[OF s arr refl _ w] s by (simp add: Let_def)
  next
    case other
    then show ?thesis using s p_str_fuel[of cs] p_num_fuel[of s] p_lit_fuel[of s]
      by (auto split: sum.splits)
  qed
  qed
next
  case (4 f acc s)
  have pv: "p_value f s \<noteq> Inl NoFuel" using "4.IH"(1) "4.prems" by simp
  show ?case
  proof (cases "p_value f s")
    case (Inl e)
    then show ?thesis using pv by simp
  next
    case (Inr b)
    obtain x y where b: "b = (x, y)" by fastforce
    have "length y < length s" using p_len(1) Inr b by blast
    then have w: "2 * length (skip_ws (tl (skip_ws y))) + 1 < f"
      using "4.prems" skip_ws_len[of y] skip_ws_len[of "tl (skip_ws y)"] by simp
    show ?thesis using "4.IH"(2)[OF Inr b[symmetric] refl _ w] Inr b by (simp add: Let_def)
  qed
next
  case (6 f kvs s)
  show ?case
  proof (cases "s \<noteq> [] \<and> hd s = 34")
    case s: True
    show ?thesis
    proof (cases "p_str (tl s)")
      case (Inl e)
      then show ?thesis using s p_str_fuel[of "tl s"] by simp
    next
      case (Inr b)
      obtain k y where b: "b = (k, y)" by fastforce
      have ly: "length y < length s - 1" using p_str_len Inr b by fastforce
      show ?thesis
      proof (cases "skip_ws y \<noteq> [] \<and> hd (skip_ws y) = 58")
        case c: True
        have w1: "2 * length (skip_ws (tl (skip_ws y))) < f"
          using "6.prems" ly skip_ws_len[of y] skip_ws_len[of "tl (skip_ws y)"] by simp
        have pv: "p_value f (skip_ws (tl (skip_ws y))) \<noteq> Inl NoFuel"
          using "6.IH"(1)[OF s Inr b[symmetric] refl c w1] .
        show ?thesis
        proof (cases "p_value f (skip_ws (tl (skip_ws y)))")
          case (Inl e)
          then show ?thesis using s Inr b c pv by simp
        next
          case (Inr b')
          obtain x z where b': "b' = (x, z)" by fastforce
          have "length z < length (skip_ws (tl (skip_ws y)))" using p_len(1) Inr b' by blast
          then have w2: "2 * length (skip_ws (tl (skip_ws z))) + 1 < f"
            using w1 skip_ws_len[of z] skip_ws_len[of "tl (skip_ws z)"] by simp
          show ?thesis
            using "6.IH"(2)[OF s \<open>p_str (tl s) = Inr b\<close> b[symmetric] refl c Inr b'[symmetric] refl _ w2]
              s \<open>p_str (tl s) = Inr b\<close> b c Inr b'
            by (simp add: Let_def)
        qed
      next
        case False
        then show ?thesis using s Inr b by (auto simp add: Let_def)
      qed
    qed
  next
    case False
    then show ?thesis by auto
  qed
qed simp_all

lemma obj_put_keys: "map fst (obj_put kvs k v) = (if k \<in> set (map fst kvs) then map fst kvs else map fst kvs @ [k])"
  by (induction kvs k v rule: obj_put.induct) auto

lemma obj_put_distinct: "distinct (map fst kvs) \<Longrightarrow> distinct (map fst (obj_put kvs k v))"
  by (simp add: obj_put_keys)

lemma obj_put_fresh: "k \<notin> set (map fst kvs) \<Longrightarrow> obj_put kvs k v = kvs @ [(k, v)]"
  by (induction kvs k v rule: obj_put.induct) auto

lemma mset_js_order: "mset (js_order kvs) = mset kvs"
  by (simp add: js_order_def)

lemma js_order_idem: "js_order (js_order kvs) = js_order kvs"
proof -
  let ?P = "\<lambda>kv. array_index (fst kv) \<noteq> None"
  let ?k = "\<lambda>kv. the (array_index (fst kv))"
  let ?A = "sort_key ?k (filter ?P kvs)" and ?B = "filter (\<lambda>kv. array_index (fst kv) = None) kvs"
  have o: "js_order kvs = ?A @ ?B" by (simp add: js_order_def)
  have a: "filter ?P (?A @ ?B) = ?A" and b: "filter (\<lambda>kv. array_index (fst kv) = None) (?A @ ?B) = ?B"
    by (auto simp add: filter_empty_conv)
  have "sorted (map ?k ?A)" by (rule sorted_sort_key)
  then have "sort_key ?k ?A = ?A" by (rule sort_key_id_if_sorted)
  then show ?thesis using a b o by (simp add: js_order_def)
qed

lemma js_order_wf:
  assumes "distinct (map fst kvs)" "list_all (\<lambda>kv. wf_json (snd kv)) kvs"
  shows "wf_json (JObj (js_order kvs))"
proof -
  have m: "mset (js_order kvs) = mset kvs" by (rule mset_js_order)
  then have "mset (map fst (js_order kvs)) = mset (map fst kvs)" by simp
  then have "distinct (map fst (js_order kvs))" using assms(1) by (metis mset_eq_imp_distinct_iff)
  moreover have "set (js_order kvs) = set kvs" using m by (metis set_mset_mset)
  ultimately show ?thesis using assms(2) by (simp add: js_order_idem list_all_iff)
qed

lemma obj_put_wf:
  "list_all (\<lambda>kv. wf_json (snd kv)) kvs \<Longrightarrow> wf_json v \<Longrightarrow> list_all (\<lambda>kv. wf_json (snd kv)) (obj_put kvs k v)"
  by (induction kvs k v rule: obj_put.induct) auto

lemma p_num_wf: "p_num s = Inr (v, r) \<Longrightarrow> wf_json v"
  by (auto simp add: p_num_def Let_def split: if_splits)

lemma p_lit_wf: "p_lit s = Inr (v, r) \<Longrightarrow> wf_json v"
  by (auto simp add: p_lit_def split: if_splits)

lemma p_wf:
  "p_value f s = Inr (v, r) \<Longrightarrow> wf_json v"
  "p_elems f acc s = Inr (v, r) \<Longrightarrow> list_all wf_json acc \<Longrightarrow> wf_json v"
  "p_members f kvs s = Inr (v, r) \<Longrightarrow> distinct (map fst kvs) \<Longrightarrow>
     list_all (\<lambda>kv. wf_json (snd kv)) kvs \<Longrightarrow> wf_json v"
proof (induction f s and f acc s and f kvs s arbitrary: v r and v r and v r rule: p_value_p_elems_p_members.induct)
  case (2 f s)
  from "2.prems" obtain c cs where s: "s = c # cs" by (cases s) auto
  consider (obj) "c = 123" | (arr) "c \<noteq> 123" "c = 91" | (other) "c \<noteq> 123" "c \<noteq> 91" by blast
  then show ?case
  proof cases
    case obj
    show ?thesis
    proof (cases "skip_ws cs \<noteq> [] \<and> hd (skip_ws cs) = 125")
      case True
      then show ?thesis using "2.prems" s obj by (auto simp add: js_order_def)
    next
      case False
      then have "p_members f [] (skip_ws cs) = Inr (v, r)" using "2.prems" s obj by (auto simp add: Let_def split: if_splits)
      then show ?thesis using "2.IH"(1)[OF s obj refl False] by simp
    qed
  next
    case arr
    show ?thesis
    proof (cases "skip_ws cs \<noteq> [] \<and> hd (skip_ws cs) = 93")
      case True
      then show ?thesis using "2.prems" s arr by auto
    next
      case False
      then have "p_elems f [] (skip_ws cs) = Inr (v, r)" using "2.prems" s arr by (auto simp add: Let_def split: if_splits)
      then show ?thesis using "2.IH"(2)[OF s arr refl False] by simp
    qed
  next
    case other
    then show ?thesis using "2.prems" s p_num_wf[of s v r] p_lit_wf[of s v r]
      by (auto split: if_splits sum.splits)
  qed
next
  case (4 f acc s)
  from "4.prems" obtain x y where pv: "p_value f s = Inr (x, y)"
    by (cases "p_value f s") auto
  have wx: "wf_json x" using "4.IH"(1) pv by simp
  show ?case
  proof (cases "skip_ws y \<noteq> [] \<and> hd (skip_ws y) = 44")
    case True
    then have "p_elems f (acc @ [x]) (skip_ws (tl (skip_ws y))) = Inr (v, r)"
      using "4.prems" pv by simp
    from "4.IH"(2)[OF pv refl refl True this] show ?thesis using wx "4.prems"(2) by simp
  next
    case False
    then show ?thesis using "4.prems" pv wx
      by (auto simp add: Let_def split: if_splits)
  qed
next
  case (6 f kvs s)
  from "6.prems" have s: "s \<noteq> [] \<and> hd s = 34" by (auto split: if_splits)
  from "6.prems" s obtain k y where ps: "p_str (tl s) = Inr (k, y)"
    by (cases "p_str (tl s)") auto
  from "6.prems" s ps have c: "skip_ws y \<noteq> [] \<and> hd (skip_ws y) = 58"
    by (auto simp add: Let_def split: if_splits)
  from "6.prems" s ps c obtain x z where pv: "p_value f (skip_ws (tl (skip_ws y))) = Inr (x, z)"
    by (cases "p_value f (skip_ws (tl (skip_ws y)))") (auto simp add: Let_def)
  have wx: "wf_json x" using "6.IH"(1)[OF s ps refl refl c pv] .
  have d: "distinct (map fst (obj_put kvs k x))" using "6.prems"(2) by (rule obj_put_distinct)
  have w: "list_all (\<lambda>kv. wf_json (snd kv)) (obj_put kvs k x)" using "6.prems"(3) wx by (rule obj_put_wf)
  show ?case
  proof (cases "skip_ws z \<noteq> [] \<and> hd (skip_ws z) = 44")
    case True
    then have "p_members f (obj_put kvs k x) (skip_ws (tl (skip_ws z))) = Inr (v, r)"
      using "6.prems" s ps c pv by (simp add: Let_def)
    from "6.IH"(2)[OF s ps refl refl c pv refl refl True this d w] show ?thesis .
  next
    case False
    then show ?thesis using "6.prems" s ps c pv js_order_wf[OF d w]
      by (auto simp add: Let_def split: if_splits)
  qed
qed simp_all

lemma json_parse_Inr:
  "json_parse s = Inr v \<longleftrightarrow> (\<exists>r. p_value (2 * length s + 2) (skip_ws s) = Inr (v, r) \<and> skip_ws r = [])"
  unfolding json_parse_def by (auto split: sum.splits simp del: p_value.simps)


lemma json_parse_fuel: "json_parse s \<noteq> Inl NoFuel"
proof -
  have "2 * length (skip_ws s) < 2 * length s + 2" using skip_ws_len[of s] by simp
  then have "p_value (2 * length s + 2) (skip_ws s) \<noteq> Inl NoFuel" by (rule p_fuel(1))
  then show ?thesis by (auto simp add: json_parse_def split: sum.splits)
qed

lemma json_parse_wf: "json_parse s = Inr v \<Longrightarrow> wf_json v"
  unfolding json_parse_Inr using p_wf(1) by blast

end
