(* ===== verification/JsonRoundtrip.thy ===== *)
theory JsonRoundtrip
  imports JsonText
begin

text \<open>
  The printer and the parser of \<open>JsonText\<close> are inverse on the values
  the page exchanges with the server.  The proof goes bottom-up: hex
  escapes (\<open>p_hex4_hex4\<close>), single escaped code units and whole escaped
  strings, surrogate pairs included (\<open>p_str_esc\<close>), integers
  (\<open>p_num_print_int\<close>), then element and member lists and the main
  induction over \<open>stringify\<close> (\<open>p_value_stringify\<close>): a printed
  well-formed value followed by a delimiter (\<open>delim\<close>: end of text, comma,
  closing bracket or brace) is read back with the rest untouched, given
  more fuel than twice the text's length, which is what \<open>json_parse\<close>
  supplies.  The theory closes with the round trip of \<open>JSON.stringify\<close>
  through \<open>JSON.parse\<close> (\<open>stringify_roundtrip\<close>), which
  \<open>Transport\<close> applies to the request body.
\<close>

definition delim :: "jstr \<Rightarrow> bool" where
  "delim r \<longleftrightarrow> r = [] \<or> hd r = 44 \<or> hd r = 93 \<or> hd r = 125"

lemma hex_val_digit: "d < 16 \<Longrightarrow> hex_val (hex_digit d) = Some d"
proof (cases "d < 10")
  case True
  then have "unat (hex_digit d) = 48 + d" by (simp add: hex_digit_def unat_numeral_plus)
  then show ?thesis using True by (simp add: hex_val_def word_le_nat_alt)
next
  case False
  assume "d < 16"
  then have "unat (hex_digit d) = 87 + d" using False by (simp add: hex_digit_def unat_numeral_plus)
  then show ?thesis using False \<open>d < 16\<close> by (simp add: hex_val_def word_le_nat_alt)
qed

lemma hex_digits_sum:
  "(n::nat) < 65536 \<Longrightarrow>
   foldl (\<lambda>a d. 16 * a + d) 0 [n div 16 ^ 3 mod 16, n div 16 ^ 2 mod 16, n div 16 ^ 1 mod 16, n div 16 ^ 0 mod 16] = n"
proof -
  assume n: "n < 65536"
  have e1: "16 * (n div 16) + n mod 16 = n" by simp
  have e2: "16 * (n div 256) + n div 16 mod 16 = n div 16"
    using mult_div_mod_eq[of 16 "n div 16"] div_mult2_eq[of n 16 16] by simp
  have e3: "16 * (n div 4096) + n div 256 mod 16 = n div 256"
    using mult_div_mod_eq[of 16 "n div 256"] div_mult2_eq[of n 256 16] by simp
  have e4: "n div 4096 mod 16 = n div 4096" using n by simp
  show ?thesis using e1 e2 e3 e4 by simp
qed

lemma p_hex4_hex4: "p_hex4 (hex4 c @ r) = Some c"
proof -
  have u: "unat c < 65536" using unsigned_less[where w = c] by simp
  have t: "those (map hex_val (hex4 c)) =
        Some [unat c div 16 ^ 3 mod 16, unat c div 16 ^ 2 mod 16, unat c div 16 ^ 1 mod 16, unat c div 16 ^ 0 mod 16]"
    by (simp add: hex4_def hex_val_digit)
  have l: "(4 \<le> length (hex4 c @ r)) = True" "take 4 (hex4 c @ r) = hex4 c" by (simp_all add: hex4_def)
  show ?thesis unfolding p_hex4_def l
    by (simp only: if_True t option.map hex_digits_sum[OF u] of_nat_unat ucast_id)
qed

lemma cons_res_Inr_eq [simp]: "cons_res u (Inr (t, r)) = Inr (u # t, r)"
  by (simp add: cons_res_def)

lemma surrogate_plain: "is_high c \<or> is_low c \<Longrightarrow> c \<noteq> 34 \<and> c \<noteq> 92 \<and> \<not> c < 32"
  by (auto simp add: is_high_def is_low_def word_le_nat_alt word_less_nat_alt)

lemma length_hex4 [simp]: "length (hex4 c) = 4"
  by (simp add: hex4_def)

lemma p_str_plain: "c \<noteq> 34 \<Longrightarrow> c \<noteq> 92 \<Longrightarrow> \<not> c < 32 \<Longrightarrow> p_str (c # rest) = cons_res c (p_str rest)"
  by simp

lemma p_str_esc_unit: "p_str (esc_unit c @ rest) = cons_res c (p_str rest)"
proof -
  have u: "p_str (92 # 117 # hex4 c @ rest) = cons_res c (p_str rest)"
    by (simp add: unescape_def p_hex4_hex4)
  show ?thesis
    unfolding esc_unit_def using u by (simp add: unescape_def)
qed

lemma p_str_esc: "p_str (esc s @ 34 # r) = Inr (s, r)"
proof (induction s rule: esc.induct)
  case 1
  then show ?case by simp
next
  case (2 c)
  then show ?case using p_str_esc_unit[of c "[34] @ r"] by simp
next
  case (3 c d cs)
  show ?case
  proof (cases "is_high c \<and> is_low d")
    case True
    then show ?thesis using "3.IH"(1) surrogate_plain[of c] surrogate_plain[of d]
      by (simp del: p_str.simps add: p_str_plain)
  next
    case False
    then have "esc (c # d # cs) = esc_unit c @ esc (d # cs)" by (simp only: esc.simps(3) if_False)
    then show ?thesis using "3.IH"(2)[OF False] p_str_esc_unit[of c "esc (d # cs) @ 34 # r"]
      by (simp del: esc.simps p_str.simps)
  qed
qed


lemma delim_simps [simp]: "delim []" "delim (44 # r)" "delim (93 # r)" "delim (125 # r)"
  by (simp_all add: delim_def)

lemma dec_hd: "n \<noteq> 0 \<Longrightarrow> hd (dec n) \<noteq> 48"
proof (induction n rule: dec.induct)
  case (1 n)
  show ?case
  proof (cases "n < 10")
    case True
    then have "unat (hd (dec n)) = 48 + n" by (simp add: dec.simps[of n] unat_digit)
    then show ?thesis using "1.prems" by auto
  next
    case False
    then have "hd (dec n) = hd (dec (n div 10))" using dec_props[of "n div 10"] by (simp add: dec.simps[of n])
    then show ?thesis using "1.IH" False by simp
  qed
qed

lemma dec_0: "dec 0 = [48]"
  by (simp add: dec.simps)

lemma takeWhile_dec: "delim r \<Longrightarrow> takeWhile is_digit (dec n @ r) = dec n"
proof -
  assume "delim r"
  then have "takeWhile is_digit r = []" by (cases r) (auto simp add: delim_def is_digit_def)
  moreover have "\<forall>x\<in>set (dec n). is_digit x" using dec_props[of n] by (simp add: list_all_iff)
  ultimately show ?thesis by (simp add: takeWhile_append2)
qed

lemma p_num_dec:
  assumes r: "delim r" and n: "n \<le> 2 ^ 53"
  shows "p_num (dec n @ r) = Inr (JNum (int n), r)" and "0 < n \<Longrightarrow> p_num (45 # dec n @ r) = Inr (JNum (- int n), r)"
proof -
  have d: "dec n \<noteq> []" "is_digit (hd (dec n))" "digits_val (dec n) = n"
    using dec_props[of n] by (auto simp add: digits_val_def list_all_iff)
  have nm: "hd (dec n) \<noteq> 45" using d(2) by (auto simp add: is_digit_def)
  have e: "\<not> (r \<noteq> [] \<and> (hd r = 46 \<or> hd r = 101 \<or> hd r = 69))" using r by (auto simp add: delim_def)
  show "p_num (dec n @ r) = Inr (JNum (int n), r)"
  proof (cases "n = 0")
    case True
    then show ?thesis using e by (simp add: p_num_def dec_0 digits_val_def is_digit_def)
  next
    case False
    then show ?thesis using d nm e n dec_hd[OF False] takeWhile_dec[OF r, of n]
      by (simp add: p_num_def Let_def)
  qed
  show "0 < n \<Longrightarrow> p_num (45 # dec n @ r) = Inr (JNum (- int n), r)"
    using d e n dec_hd[of n] takeWhile_dec[OF r, of n] by (simp add: p_num_def Let_def)
qed

lemma p_num_print_int: "delim r \<Longrightarrow> \<bar>n\<bar> \<le> 2 ^ 53 \<Longrightarrow> p_num (print_int n @ r) = Inr (JNum n, r)"
proof (cases "n < 0")
  case True
  assume "delim r" "\<bar>n\<bar> \<le> 2 ^ 53"
  then have "nat (- n) \<le> 2 ^ 53" by simp
  then show ?thesis using p_num_dec(2)[OF \<open>delim r\<close>, of "nat (- n)"] True by (simp add: print_int_def)
next
  case False
  assume "delim r" "\<bar>n\<bar> \<le> 2 ^ 53"
  then have "nat n \<le> 2 ^ 53" by simp
  then show ?thesis using p_num_dec(1)[OF \<open>delim r\<close>, of "nat n"] False by (simp add: print_int_def)
qed

lemma stringify_start:
  "stringify v \<noteq> [] \<and> \<not> json_ws (hd (stringify v)) \<and> hd (stringify v) \<noteq> 93 \<and> hd (stringify v) \<noteq> 125"
proof -
  have digit: "is_digit c \<Longrightarrow> \<not> json_ws c \<and> c \<noteq> 93 \<and> c \<noteq> 125" for c :: "16 word"
    by (auto simp add: is_digit_def json_ws_def)
  have "dec n \<noteq> [] \<and> \<not> json_ws (hd (dec n)) \<and> hd (dec n) \<noteq> 93 \<and> hd (dec n) \<noteq> 125" for n
    using dec_props[of n] digit[of "hd (dec n)"] by (cases "dec n") auto
  then show ?thesis
    by (cases v) (auto simp add: print_int_def quote_def json_ws_def is_digit_def js_def)
qed

lemma skip_ws_nows: "xs \<noteq> [] \<Longrightarrow> \<not> json_ws (hd xs) \<Longrightarrow> skip_ws (xs @ r) = xs @ r"
  by (cases xs) (simp_all add: skip_ws_def)

lemma skip_ws_stringify [simp]: "skip_ws (stringify v @ r) = stringify v @ r"
  using stringify_start[of v] by (simp add: skip_ws_nows)

lemma skip_ws_sep [simp]: "skip_ws (44 # r) = 44 # r" "skip_ws (58 # r) = 58 # r"
  "skip_ws (93 # r) = 93 # r" "skip_ws (125 # r) = 125 # r"
  by (simp_all add: skip_ws_def json_ws_def)

lemma join_commas_Cons: "join_commas (x # xs) = x @ (if xs = [] then [] else 44 # join_commas xs)"
  by (cases xs) auto

lemma p_lit_lits: "p_lit (js ''null'' @ r) = Inr (JNull, r)" "p_lit (js ''true'' @ r) = Inr (JBool True, r)"
  "p_lit (js ''false'' @ r) = Inr (JBool False, r)"
  by (simp_all add: p_lit_def js_def)

lemma skip_ws_join [simp]:
  "vs \<noteq> [] \<Longrightarrow> skip_ws (join_commas (map stringify vs) @ r) = join_commas (map stringify vs) @ r"
  by (cases vs) (simp_all add: join_commas_Cons)

lemma hd_join_stringify:
  "vs \<noteq> [] \<Longrightarrow> join_commas (map stringify vs) @ r \<noteq> [] \<and> hd (join_commas (map stringify vs) @ r) \<noteq> 93"
  using stringify_start[of "hd vs"] by (cases vs) (simp_all add: join_commas_Cons)

lemma p_elems_stringify:
  assumes IH: "\<And>v r f. v \<in> set vs \<Longrightarrow> wf_json v \<Longrightarrow> delim r \<Longrightarrow> 2 * length (stringify v @ r) < f \<Longrightarrow>
      p_value f (stringify v @ r) = Inr (v, r)"
    and "list_all wf_json vs" and "vs \<noteq> []"
    and "2 * length (join_commas (map stringify vs) @ 93 # r) + 1 < f"
  shows "p_elems f acc (join_commas (map stringify vs) @ 93 # r) = Inr (JArr (acc @ vs), r)"
  using assms
proof (induction vs arbitrary: acc f)
  case Nil
  then show ?case by simp
next
  case (Cons v vs)
  obtain g where f: "f = Suc g" using Cons.prems(4) by (cases f) auto
  show ?case
  proof (cases "vs = []")
    case True
    have "p_value g (stringify v @ 93 # r) = Inr (v, 93 # r)"
      using Cons.prems(1)[of v "93 # r" g] Cons.prems(2,4) f True by simp
    then show ?thesis using f True by simp
  next
    case False
    let ?rest = "join_commas (map stringify vs) @ 93 # r"
    have j: "join_commas (map stringify (v # vs)) @ 93 # r = stringify v @ 44 # ?rest"
      using False by (simp add: join_commas_Cons)
    have pv: "p_value g (stringify v @ 44 # ?rest) = Inr (v, 44 # ?rest)"
      using Cons.prems(1)[of v "44 # ?rest" g] Cons.prems(2,4) f j by simp
    have "p_elems g (acc @ [v]) ?rest = Inr (JArr ((acc @ [v]) @ vs), r)"
      using Cons.IH[where acc = "acc @ [v]" and f = g] Cons.prems(1,2,4) False f j by simp
    then show ?thesis using f j pv False by simp
  qed
qed


lemma p_str_quote: "p_str (tl (quote k @ r)) = Inr (k, r)"
  using p_str_esc[of k r] by (simp add: quote_def)

lemma p_members_stringify:
  fixes kvs :: "(jstr \<times> json) list"
  defines "m \<equiv> \<lambda>kv. quote (fst kv) @ 58 # stringify (snd kv)"
  assumes IH: "\<And>kv r f. kv \<in> set kvs \<Longrightarrow> wf_json (snd kv) \<Longrightarrow> delim r \<Longrightarrow>
      2 * length (stringify (snd kv) @ r) < f \<Longrightarrow> p_value f (stringify (snd kv) @ r) = Inr (snd kv, r)"
    and "list_all (\<lambda>kv. wf_json (snd kv)) kvs" and "kvs \<noteq> []"
    and "distinct (map fst (acc @ kvs))"
    and "2 * length (join_commas (map m kvs) @ 125 # r) + 1 < f"
  shows "p_members f acc (join_commas (map m kvs) @ 125 # r) = Inr (JObj (js_order (acc @ kvs)), r)"
  using assms(2-)
proof (induction kvs arbitrary: acc f)
  case Nil
  then show ?case by simp
next
  case (Cons kv kvs)
  obtain k v where kv: "kv = (k, v)" by fastforce
  obtain g where f: "f = Suc g" using Cons.prems(5) by (cases f) auto
  have put: "obj_put acc k v = acc @ [(k, v)]"
    using Cons.prems(4) kv by (simp add: obj_put_fresh)
  have hq: "quote k @ x \<noteq> [] \<and> hd (quote k @ x) = 34" for x by (simp add: quote_def)
  have lq: "2 \<le> length (quote k)" by (simp add: quote_def)
  show ?case
  proof (cases "kvs = []")
    case True
    have j: "join_commas (map m (kv # kvs)) @ 125 # r = quote k @ 58 # stringify v @ 125 # r"
      using True by (simp add: m_def kv)
    from Cons.prems(5) have "2 * length (quote k @ 58 # stringify v @ 125 # r) + 1 < f"
      by (simp only: j)
    then have pv: "p_value g (stringify v @ 125 # r) = Inr (v, 125 # r)"
      using Cons.prems(1)[of kv "125 # r" g] Cons.prems(2) f kv lq by simp
    show ?thesis unfolding j
      using f pv put hq[of "58 # stringify v @ 125 # r"] p_str_quote[of k "58 # stringify v @ 125 # r"] True kv
      by (simp add: Let_def)
  next
    case False
    let ?rest = "join_commas (map m kvs) @ 125 # r"
    have j: "join_commas (map m (kv # kvs)) @ 125 # r = quote k @ 58 # stringify v @ 44 # ?rest"
      using False by (simp add: join_commas_Cons m_def kv)
    from Cons.prems(5) have fu: "2 * length (quote k @ 58 # stringify v @ 44 # ?rest) + 1 < f"
      by (simp only: j)
    then have pv: "p_value g (stringify v @ 44 # ?rest) = Inr (v, 44 # ?rest)"
      using Cons.prems(1)[of kv "44 # ?rest" g] Cons.prems(2) f kv lq by simp
    have "p_members g (acc @ [(k, v)]) ?rest = Inr (JObj (js_order ((acc @ [(k, v)]) @ kvs)), r)"
      using Cons.IH[where acc = "acc @ [(k, v)]" and f = g] Cons.prems(1,2,4) fu False f kv lq by simp
    moreover have "skip_ws ?rest = ?rest"
      using False by (cases kvs) (simp_all add: join_commas_Cons m_def quote_def skip_ws_def json_ws_def)
    ultimately show ?thesis unfolding j
      using f pv put hq[of "58 # stringify v @ 44 # ?rest"] p_str_quote[of k "58 # stringify v @ 44 # ?rest"] kv
      by (simp add: Let_def)
  qed
qed

lemma print_int_start: "\<exists>c cs. print_int n @ r = c # cs \<and> c \<noteq> 123 \<and> c \<noteq> 91 \<and> c \<noteq> 34 \<and> (c = 45 \<or> is_digit c)"
proof (cases "n < 0")
  case True
  then show ?thesis by (simp add: print_int_def)
next
  case False
  obtain c cs where "dec (nat n) = c # cs" using dec_props[of "nat n"] by (cases "dec (nat n)") auto
  moreover have "is_digit c" using dec_props[of "nat n"] calculation by simp
  ultimately show ?thesis using False by (auto simp add: print_int_def is_digit_def)
qed

lemma p_value_stringify:
  "wf_json v \<Longrightarrow> delim r \<Longrightarrow> 2 * length (stringify v @ r) < f \<Longrightarrow> p_value f (stringify v @ r) = Inr (v, r)"
proof (induction v arbitrary: r f rule: stringify.induct)
  case 1
  then obtain g where "f = Suc g" by (cases f) auto
  then show ?case using p_lit_lits(1)[of r] by (simp add: js_def is_digit_def)
next
  case (2 b)
  then obtain g where "f = Suc g" by (cases f) auto
  then show ?case using p_lit_lits(2,3)[of r] by (cases b) (simp_all add: js_def is_digit_def)
next
  case (3 n)
  then obtain g where g: "f = Suc g" by (cases f) auto
  obtain c cs where c: "print_int n @ r = c # cs" "c \<noteq> 123" "c \<noteq> 91" "c \<noteq> 34" "c = 45 \<or> is_digit c"
    using print_int_start by blast
  have "p_value f (print_int n @ r) = p_num (print_int n @ r)" using g c by auto
  then show ?case using p_num_print_int[of r n] "3.prems" by simp
next
  case (4 s)
  then obtain g where "f = Suc g" by (cases f) auto
  then show ?case using p_str_esc[of s r] by (simp add: quote_def)
next
  case (5 vs)
  then obtain g where g: "f = Suc g" by (cases f) auto
  show ?case
  proof (cases "vs = []")
    case True
    then show ?thesis using g by simp
  next
    case False
    have "p_elems g [] (join_commas (map stringify vs) @ 93 # r) = Inr (JArr ([] @ vs), r)"
      using p_elems_stringify[of vs r g "[]"] "5.IH" "5.prems" False g by simp
    then show ?thesis using g False hd_join_stringify[OF False, of "93 # r"] by (simp add: Let_def)
  qed
next
  case (6 kvs)
  then obtain g where g: "f = Suc g" by (cases f) auto
  let ?m = "\<lambda>kv. quote (fst kv) @ 58 # stringify (snd kv)"
  show ?case
  proof (cases "kvs = []")
    case True
    then show ?thesis using g by simp
  next
    case False
    have "p_members g [] (join_commas (map ?m kvs) @ 125 # r) = Inr (JObj (js_order ([] @ kvs)), r)"
      using p_members_stringify[where kvs = kvs and r = r and f = g and acc = "[]"] "6.IH" "6.prems" False g by simp
    moreover have "skip_ws (join_commas (map ?m kvs) @ 125 # r) = join_commas (map ?m kvs) @ 125 # r"
      using False by (cases kvs) (simp_all add: join_commas_Cons quote_def skip_ws_def json_ws_def)
    moreover have "join_commas (map ?m kvs) @ 125 # r \<noteq> [] \<and> hd (join_commas (map ?m kvs) @ 125 # r) = 34"
      using False by (cases kvs) (simp_all add: join_commas_Cons quote_def)
    ultimately show ?thesis using g "6.prems"(1) by (simp add: Let_def)
  qed
qed

lemma stringify_roundtrip: "wf_json v \<Longrightarrow> json_parse (stringify v) = Inr v"
proof -
  assume w: "wf_json v"
  have "p_value (2 * length (stringify v) + 2) (stringify v @ []) = Inr (v, [])"
    using w by (rule p_value_stringify) simp_all
  moreover have "skip_ws (stringify v) = stringify v" using skip_ws_stringify[of v "[]"] by simp
  ultimately show ?thesis unfolding json_parse_Inr
    by (simp del: p_value.simps add: skip_ws_def)
qed

end
