(* ===== verification/Transport.thy ===== *)
theory Transport
  imports Session JsonRoundtrip
begin

text \<open>
  The wire between \<open>sendMessage\<close> and the server.  \<open>request_text\<close> is
  the body the page posts, \<open>JSON.stringify\<close> of the turn's request
  (lines 39--42 of \<open>src/static/script.js\<close>); \<open>decode_reply\<close> is what the
  two awaits make of the server's answer (lines 36 and 45): no response at
  all (\<open>None\<close>, the \<open>fetch\<close> promise rejects) and a body that is not
  JSON are \<open>Rejected\<close>, which sends the turn down the \<open>catch\<close> block; a
  JSON body is \<open>Replied\<close> with the parsed value; a body with a fraction or
  exponent is outside the model (\<open>None\<close>).

  A run whose replies all come through \<open>decode_reply\<close> satisfies
  \<open>wire_ok\<close> at each resumption (\<open>decode_reply_wire_ok\<close>); along such
  runs the stored context and every queued request stay well-formed JSON
  values (\<open>wire_inv\<close>), so every request text the page posts reads back as
  the request it built.  The last theorem follows an answer that is not
  JSON, or no answer at all, through \<open>decode_reply\<close> into the \<open>catch\<close>
  block (lines 51--54).
\<close>

definition request_text :: "turn \<Rightarrow> jstr" where
  "request_text t = stringify (request t)"

definition decode_reply :: "jstr option \<Rightarrow> reply option" where
  "decode_reply b =
     (case b of
        None \<Rightarrow> Some Rejected
      | Some body \<Rightarrow>
          (case json_parse body of
             Inr d \<Rightarrow> Some (Replied d)
           | Inl SyntaxError \<Rightarrow> Some Rejected
           | Inl _ \<Rightarrow> None))"

definition wire_ok :: "page \<Rightarrow> event \<Rightarrow> bool" where
  "wire_ok p e = (case e of Resume i (Replied d) \<Rightarrow> wf_json d | _ \<Rightarrow> True)"

definition wire_inv :: "page \<Rightarrow> bool" where
  "wire_inv p \<longleftrightarrow> pred_option wf_json (context_val p) \<and> list_all (\<lambda>t. wf_json (request t)) (inflight p)"

lemma decode_reply_wire_ok: "decode_reply b = Some r \<Longrightarrow> wire_ok p (Resume i r)"
proof (cases b)
  case (Some body)
  assume h: "decode_reply b = Some r"
  show ?thesis
  proof (cases "json_parse body")
    case (Inr d)
    then have "wf_json d" unfolding json_parse_Inr using p_wf(1) by blast
    then show ?thesis using h Some Inr by (auto simp add: decode_reply_def wire_ok_def)
  next
    case (Inl e)
    then show ?thesis using h Some by (cases e) (simp_all add: decode_reply_def wire_ok_def)
  qed
qed (simp_all add: decode_reply_def wire_ok_def)

lemma get_prop_wf: "wf_json d \<Longrightarrow> get_prop d k = Inr c \<Longrightarrow> pred_option wf_json c"
proof (cases d)
  case (JObj kvs)
  assume w: "wf_json d" and g: "get_prop d k = Inr c"
  show ?thesis
  proof (cases c)
    case (Some x)
    then have "(k, x) \<in> set kvs" using JObj g by (auto dest: map_of_SomeD)
    then show ?thesis using w JObj Some by (auto simp add: list_all_iff)
  qed simp
qed (auto simp add: get_prop_def)

lemma wf_request_body: "pred_option wf_json ctx \<Longrightarrow> wf_json (request_body m ctx)"
  by (cases ctx) (simp_all add: request_body_def js_order_def array_index_def parse_dec_def is_digit_def js_def)

lemma wire_inv_send: "wire_inv p \<Longrightarrow> wire_inv (send_message m b p)"
  by (auto simp add: wire_inv_def send_message_def dispatch_eq wf_request_body add_message_def
      scroll_to_bottom_def split: sum.splits option.splits json.splits)

lemma wire_inv_settle: "wire_inv p \<Longrightarrow> wire_ok p (Resume i r) \<Longrightarrow> wire_inv (settle_turn lid r p)"
  by (auto simp add: wire_inv_def wire_ok_def page_defs fail_path_eq Let_def renderer_simps
      dest: get_prop_wf split: reply.splits sum.splits option.splits json.splits)

lemma wire_inv_step: "wire_inv p \<Longrightarrow> wire_ok p e \<Longrightarrow> wire_inv (step p e)"
proof (cases e)
  case StartClick
  assume w: "wire_inv p"
  then have "wire_inv (p\<lparr>start_btn := False\<rparr>)" by (simp add: wire_inv_def)
  then show ?thesis using StartClick w by (simp add: start_chat_def wire_inv_send)
next
  case (Resume i r)
  assume w: "wire_inv p" and ok: "wire_ok p e"
  show ?thesis
  proof (cases "i < length (inflight p)")
    case True
    let ?q = "p\<lparr>inflight := drop_at i (inflight p)\<rparr>"
    have "wire_inv ?q" using w set_drop_at_subset[of i "inflight p"] by (auto simp add: wire_inv_def list_all_iff)
    moreover have "wire_ok ?q (Resume i r)" using ok Resume by (simp add: wire_ok_def)
    ultimately show ?thesis using Resume True by (simp add: resume_def wire_inv_settle)
  qed (simp add: Resume resume_def w)
qed (simp_all add: wire_inv_send, simp_all add: wire_inv_def page_defs Let_def)

lemma wire_inv_reachable: "reachable_under wire_ok p \<Longrightarrow> wire_inv p"
proof (induction rule: reachable_under.induct)
  case (init html btn label t0)
  have "wf_json initial_context" by code_simp
  then show ?case by (simp add: wire_inv_def init_page_def)
next
  case (move p e)
  then show ?case using wire_inv_step by blast
qed

lemma request_text_parse: "wf_json (request t) \<Longrightarrow> json_parse (request_text t) = Inr (request t)"
proof -
  assume w: "wf_json (request t)"
  have "p_value (2 * length (request_text t) + 2) (stringify (request t) @ []) = Inr (request t, [])"
    using w by (rule p_value_stringify) (simp_all add: request_text_def)
  moreover have "skip_ws (request_text t) = request_text t"
    using skip_ws_stringify[of "request t" "[]"] by (simp add: request_text_def)
  ultimately show ?thesis unfolding json_parse_Inr
    by (simp del: p_value.simps add: skip_ws_def request_text_def)
qed

text \<open>
  C16. Every request the page has queued on a run whose replies came over
  the wire is posted as a text that \<open>JSON.parse\<close> reads back as exactly
  that request: the message and the stored conversation state.
\<close>

theorem request_text_roundtrip:
  "reachable_under wire_ok p \<Longrightarrow> t \<in> set (inflight p) \<Longrightarrow> json_parse (request_text t) = Inr (request t)"
  using wire_inv_reachable request_text_parse by (auto simp add: wire_inv_def list_all_iff)

theorem request_text_roundtrip_witness:
  "reachable_under wire_ok (step (step (init_page [] False [] 0) (Edit (js ''hi''))) SendClick) \<and>
   \<lparr>loading_id = typing_id 0, request = request_body (js ''hi'') (Some initial_context)\<rparr>
     \<in> set (inflight (step (step (init_page [] False [] 0) (Edit (js ''hi''))) SendClick)) \<and>
   json_parse (request_text \<lparr>loading_id = typing_id 0, request = request_body (js ''hi'') (Some initial_context)\<rparr>) =
     Inr (request_body (js ''hi'') (Some initial_context))"
proof -
  have r: "reachable_under wire_ok (step (step (init_page [] False [] 0) (Edit (js ''hi''))) SendClick)"
    by (intro reachable_under.move reachable_under.init) (simp_all add: wire_ok_def)
  have m: "\<lparr>loading_id = typing_id 0, request = request_body (js ''hi'') (Some initial_context)\<rparr>
     \<in> set (inflight (step (step (init_page [] False [] 0) (Edit (js ''hi''))) SendClick))"
    by (simp add: send_message_user_eq init_page_def)
  show ?thesis using r m request_text_roundtrip[OF r m] by simp
qed



end
