(* ===== verification/Conversation.thy ===== *)
theory Conversation
  imports Session
begin

text \<open>
  The conversation as the specification describes it: a transcript of
  attributed entries and the opaque state (\<open>conv\<close>), one turn at a time
  (\<open>conv_turn\<close>: an optional user entry, then the agent's answer or the
  fallback, and the state replaced by the answer's or kept on failure), and
  the service's contract on replies (\<open>reply_outcome\<close>: a transport failure,
  a \<open>null\<close> body, or a body with a string response; anything else is
  outside the contract).  \<open>aconv\<close> adds whether a turn is awaited, and
  \<open>conv_move\<close> is the abstract machine: a turn is asked only when none is
  awaited and answered only when one is.  \<open>abs_page\<close> reads the abstract
  state off a page: the entries of the thread (indicators are not
  entries), the stored state, and whether a request is pending.  Without
  the single-flight discipline the abstract machine counts the awaited
  turns instead (\<open>mconv\<close>, \<open>mconv_move\<close>, \<open>abs_multi\<close>).

  \<open>abs_ev\<close> says which abstract move a page event is: a submission that
  dispatches a request asks (with the user's text, or none for the start
  trigger), the arrival of the reply to a pending turn answers with the
  outcome of that very reply, everything else is idle.  \<open>abs_trace\<close> maps
  a run of page events to the abstract moves, \<open>conv_run\<close> and
  \<open>mconv_run\<close> run the abstract machines on them, and \<open>run_ok\<close> says that
  each event of a run is admitted by a policy in the state it meets.
\<close>

record conv =
  transcript :: "(sender \<times> jstr) list"
  conv_state :: jsval

datatype outcome = Answered jsval jstr | Failed

definition reply_outcome :: "reply \<Rightarrow> outcome option" where
  "reply_outcome r =
     (case r of
        Rejected \<Rightarrow> Some Failed
      | Replied d \<Rightarrow>
          (case get_prop d (js ''context'') of
             Inl _ \<Rightarrow> Some Failed
           | Inr s \<Rightarrow> (case get_prop d (js ''response'') of
                        Inr (Some (JStr t)) \<Rightarrow> Some (Answered s t)
                      | _ \<Rightarrow> None)))"

definition conv_turn :: "conv \<Rightarrow> jstr option \<Rightarrow> outcome \<Rightarrow> conv" where
  "conv_turn c u oc =
     \<lparr>transcript = transcript c @ (case u of Some m \<Rightarrow> [(User, format_text m)] | None \<Rightarrow> []) @
        [(Bot, format_text (case oc of Answered _ t \<Rightarrow> t | Failed \<Rightarrow> fallback_text))],
      conv_state = (case oc of Answered s _ \<Rightarrow> s | Failed \<Rightarrow> conv_state c)\<rparr>"

record aconv = conv +
  busy :: bool

datatype aevent = Ask "jstr option" | Answer outcome | Idle

fun conv_move :: "aconv \<Rightarrow> aevent \<Rightarrow> aconv option" where
  "conv_move c (Ask u) =
     (if busy c then None
      else Some (c\<lparr>transcript := transcript c @ (case u of Some m \<Rightarrow> [(User, format_text m)] | None \<Rightarrow> []),
                   busy := True\<rparr>))"
| "conv_move c (Answer oc) =
     (if busy c
      then Some (c\<lparr>transcript := transcript c @
                     [(Bot, format_text (case oc of Answered _ t \<Rightarrow> t | Failed \<Rightarrow> fallback_text))],
                   conv_state := (case oc of Answered s _ \<Rightarrow> s | Failed \<Rightarrow> conv_state c), busy := False\<rparr>)
      else None)"
| "conv_move c Idle = Some c"

definition contract_ok :: "page \<Rightarrow> event \<Rightarrow> bool" where
  "contract_ok p e \<longleftrightarrow> single_flight p e \<and> (case e of Resume i r \<Rightarrow> reply_outcome r \<noteq> None | _ \<Rightarrow> True)"

definition abs_page :: "page \<Rightarrow> aconv" where
  "abs_page p = \<lparr>transcript = entries (thread p), conv_state = context_val p, busy = inflight p \<noteq> []\<rparr>"

record mconv = conv +
  awaiting :: nat

fun mconv_move :: "mconv \<Rightarrow> aevent \<Rightarrow> mconv option" where
  "mconv_move c (Ask u) =
     Some (c\<lparr>transcript := transcript c @ (case u of Some m \<Rightarrow> [(User, format_text m)] | None \<Rightarrow> []),
             awaiting := Suc (awaiting c)\<rparr>)"
| "mconv_move c (Answer oc) =
     (if 0 < awaiting c
      then Some (c\<lparr>transcript := transcript c @
                     [(Bot, format_text (case oc of Answered _ t \<Rightarrow> t | Failed \<Rightarrow> fallback_text))],
                   conv_state := (case oc of Answered s _ \<Rightarrow> s | Failed \<Rightarrow> conv_state c),
                   awaiting := awaiting c - 1\<rparr>)
      else None)"
| "mconv_move c Idle = Some c"

definition replies_ok :: "page \<Rightarrow> event \<Rightarrow> bool" where
  "replies_ok p e \<longleftrightarrow> (case e of Resume i r \<Rightarrow> reply_outcome r \<noteq> None | _ \<Rightarrow> True)"

definition abs_multi :: "page \<Rightarrow> mconv" where
  "abs_multi p = \<lparr>transcript = entries (thread p), conv_state = context_val p, awaiting = length (inflight p)\<rparr>"

definition abs_conv :: "page \<Rightarrow> conv" where
  "abs_conv p = \<lparr>transcript = entries (thread p), conv_state = context_val p\<rparr>"

definition send_ev :: "jstr \<Rightarrow> bool \<Rightarrow> aevent" where
  "send_ev m b = (if m = [] \<and> \<not> b then Idle else Ask (if b then None else Some m))"

definition abs_ev :: "page \<Rightarrow> event \<Rightarrow> aevent" where
  "abs_ev p e =
     (case e of
        StartClick \<Rightarrow> if start_btn p then send_ev [] True else Idle
      | SendClick \<Rightarrow> send_ev (input p) False
      | KeyPress k \<Rightarrow> if k = js ''Enter'' then send_ev (input p) False else Idle
      | Resume i r \<Rightarrow>
          (if i < length (inflight p)
           then (case reply_outcome r of Some oc \<Rightarrow> Answer oc | None \<Rightarrow> Idle) else Idle)
      | _ \<Rightarrow> Idle)"

fun abs_trace :: "page \<Rightarrow> event list \<Rightarrow> aevent list" where
  "abs_trace p [] = []"
| "abs_trace p (e # es) = abs_ev p e # abs_trace (step p e) es"

fun conv_run :: "aconv \<Rightarrow> aevent list \<Rightarrow> aconv option" where
  "conv_run c [] = Some c"
| "conv_run c (a # as) = (case conv_move c a of None \<Rightarrow> None | Some c' \<Rightarrow> conv_run c' as)"

fun mconv_run :: "mconv \<Rightarrow> aevent list \<Rightarrow> mconv option" where
  "mconv_run c [] = Some c"
| "mconv_run c (a # as) = (case mconv_move c a of None \<Rightarrow> None | Some c' \<Rightarrow> mconv_run c' as)"

fun run_ok :: "(page \<Rightarrow> event \<Rightarrow> bool) \<Rightarrow> page \<Rightarrow> event list \<Rightarrow> bool" where
  "run_ok ok p [] = True"
| "run_ok ok p (e # es) \<longleftrightarrow> ok p e \<and> run_ok ok (step p e) es"

lemma settle_turn_outcome:
  assumes "reply_outcome r = Some oc"
  shows "abs_conv (settle_turn lid r q) =
    \<lparr>transcript = entries (thread q) @
        [(Bot, format_text (case oc of Answered _ t \<Rightarrow> t | Failed \<Rightarrow> fallback_text))],
     conv_state = (case oc of Answered s _ \<Rightarrow> s | Failed \<Rightarrow> context_val q)\<rparr>"
  using assms
  by (auto simp add: reply_outcome_def page_defs abs_conv_def fail_path_eq Let_def renderer_simps
      split: reply.splits sum.splits option.splits json.splits)

lemma resume_last:
  "resume (length xs) r (q\<lparr>inflight := xs @ [t]\<rparr>) = settle_turn (loading_id t) r (q\<lparr>inflight := xs\<rparr>)"
  by (simp add: resume_def drop_at_def)




lemma sim_send:
  "inflight p = [] \<Longrightarrow> conv_move (abs_page p) (send_ev m b) = Some (abs_page (send_message m b p))"
  by (auto simp add: send_ev_def send_message_def dispatch_eq abs_page_def scroll_to_bottom_def)

lemma msim_send: "mconv_move (abs_multi p) (send_ev m b) = Some (abs_multi (send_message m b p))"
  by (auto simp add: send_ev_def send_message_def dispatch_eq abs_multi_def scroll_to_bottom_def)

lemma resume_outcome:
  assumes "i < length (inflight p)" and "reply_outcome r = Some oc"
  shows "entries (thread (resume i r p)) =
           entries (thread p) @ [(Bot, format_text (case oc of Answered _ t \<Rightarrow> t | Failed \<Rightarrow> fallback_text))] \<and>
         context_val (resume i r p) = (case oc of Answered s _ \<Rightarrow> s | Failed \<Rightarrow> context_val p) \<and>
         inflight (resume i r p) = drop_at i (inflight p)"
proof -
  let ?q = "p\<lparr>inflight := drop_at i (inflight p)\<rparr>"
  have "abs_conv (settle_turn (loading_id (inflight p ! i)) r ?q) =
    \<lparr>transcript = entries (thread ?q) @
        [(Bot, format_text (case oc of Answered _ t \<Rightarrow> t | Failed \<Rightarrow> fallback_text))],
     conv_state = (case oc of Answered s _ \<Rightarrow> s | Failed \<Rightarrow> context_val ?q)\<rparr>"
    by (rule settle_turn_outcome[OF assms(2)])
  then show ?thesis using assms(1) by (simp add: resume_def abs_conv_def split: outcome.split)
qed

lemma sim_resume:
  assumes "sf_inv p" and "i < length (inflight p)" and "reply_outcome r = Some oc"
  shows "conv_move (abs_page p) (Answer oc) = Some (abs_page (resume i r p))"
proof -
  from assms(1,2) have "inflight p \<noteq> []" and "drop_at i (inflight p) = []"
    by (auto simp add: sf_inv_def drop_at_def le_Suc_eq length_Suc_conv)
  then show ?thesis using resume_outcome[OF assms(2,3)] by (simp add: abs_page_def split: outcome.split)
qed

lemma msim_resume:
  assumes "i < length (inflight p)" and "reply_outcome r = Some oc"
  shows "mconv_move (abs_multi p) (Answer oc) = Some (abs_multi (resume i r p))"
proof -
  have "inflight p \<noteq> []" using assms(1) by auto
  then show ?thesis using resume_outcome[OF assms] assms(1) by (simp add: abs_multi_def split: outcome.split)
qed

lemma sim_step:
  assumes s: "sf_inv p" and ok: "contract_ok p e"
  shows "conv_move (abs_page p) (abs_ev p e) = Some (abs_page (step p e))"
proof (cases e)
  case StartClick
  then show ?thesis
  proof (cases "start_btn p")
    case True
    then have "inflight (p\<lparr>start_btn := False\<rparr>) = []" using ok StartClick by (simp add: contract_ok_def single_flight_def)
    from sim_send[OF this, of "[]" True] show ?thesis using True StartClick
      by (simp add: start_chat_def abs_ev_def abs_page_def)
  qed (simp add: abs_ev_def)
next
  case SendClick
  then show ?thesis using ok sim_send[of p "input p" False] by (simp add: contract_ok_def single_flight_def abs_ev_def)
next
  case (KeyPress k)
  then show ?thesis using ok sim_send[of p "input p" False] by (simp add: contract_ok_def single_flight_def abs_ev_def)
next
  case (Resume i r)
  then obtain oc where o: "reply_outcome r = Some oc" using ok by (auto simp add: contract_ok_def)
  show ?thesis
  proof (cases "i < length (inflight p)")
    case True
    then show ?thesis using sim_resume[OF s True o] Resume o by (simp add: abs_ev_def)
  qed (simp add: Resume abs_ev_def resume_def)
qed (simp_all add: abs_ev_def abs_page_def page_defs Let_def)

lemma msim_step:
  assumes ok: "replies_ok p e"
  shows "mconv_move (abs_multi p) (abs_ev p e) = Some (abs_multi (step p e))"
proof (cases e)
  case StartClick
  then show ?thesis
  proof (cases "start_btn p")
    case True
    from msim_send[of "p\<lparr>start_btn := False\<rparr>" "[]" True] show ?thesis using True StartClick
      by (simp add: start_chat_def abs_ev_def abs_multi_def)
  qed (simp add: abs_ev_def)
next
  case SendClick
  then show ?thesis using msim_send[of p "input p" False] by (simp add: abs_ev_def)
next
  case (KeyPress k)
  then show ?thesis using msim_send[of p "input p" False] by (simp add: abs_ev_def)
next
  case (Resume i r)
  then obtain oc where o: "reply_outcome r = Some oc" using ok by (auto simp add: replies_ok_def)
  show ?thesis
  proof (cases "i < length (inflight p)")
    case True
    then show ?thesis using msim_resume[OF True o] Resume o by (simp add: abs_ev_def)
  qed (simp add: Resume abs_ev_def resume_def)
qed (simp_all add: abs_ev_def abs_multi_def page_defs Let_def)

lemma conv_run_refines:
  "sf_inv p \<Longrightarrow> run_ok contract_ok p es \<Longrightarrow> conv_run (abs_page p) (abs_trace p es) = Some (abs_page (run p es))"
proof (induction es arbitrary: p)
  case (Cons e es)
  then have "sf_inv (step p e)" by (simp add: sf_step contract_ok_def)
  then show ?case using Cons sim_step[OF Cons.prems(1)] by (simp add: run_Cons)
qed (simp add: run_Nil)

end
