(* ===== verification/Interleaving.thy ===== *)
theory Interleaving
  imports Session
begin

text \<open>
  Runs of the page without the single-flight discipline.  Several turns may
  then be pending, each with its own typing indicator, and replies settle
  them in any order.  The indicator id is \<open>'typing-' + Date.now()\<close>, so
  two turns started in the same millisecond share an id (the runs of
  \<open>Session\<close> show what goes wrong then).  \<open>fresh_ids\<close> admits a
  submission only at a timestamp that no pending turn was started at, and
  \<open>ids_inv\<close> is the invariant it keeps: the indicators on screen are
  exactly the pending turns' ids, in order, and distinct.
\<close>

definition fresh_ids :: "page \<Rightarrow> event \<Rightarrow> bool" where
  "fresh_ids p e \<longleftrightarrow> \<not> is_submit e \<or> list_all (\<lambda>t. loading_id t \<noteq> typing_id (clock p)) (inflight p)"

definition ids_inv :: "page \<Rightarrow> bool" where
  "ids_inv p \<longleftrightarrow> typing_ids (thread p) = map loading_id (inflight p) \<and> distinct (map loading_id (inflight p))"

lemma ids_send:
  assumes inv: "ids_inv p" and f: "list_all (\<lambda>t. loading_id t \<noteq> typing_id (clock p)) (inflight p)"
  shows "ids_inv (send_message m b p)"
proof -
  have n: "typing_id (clock p) \<notin> set (map loading_id (inflight p))" using f by (auto simp add: list_all_iff)
  consider (drop) "m = [] \<and> \<not> b" | (sys) b | (user) "m \<noteq> []" "\<not> b" by blast
  then show ?thesis
  proof cases
    case drop
    then show ?thesis using inv by (simp add: send_message_def)
  next
    case sys
    then show ?thesis using inv n by (simp add: send_message_def dispatch_eq ids_inv_def)
  next
    case user
    then show ?thesis using inv n by (simp add: send_message_user_eq ids_inv_def)
  qed
qed

lemma ids_resume:
  assumes inv: "ids_inv p"
  shows "ids_inv (resume i r p)"
proof (cases "i < length (inflight p)")
  case True
  let ?ids = "map loading_id (inflight p)" and ?lid = "loading_id (inflight p ! i)"
  let ?q = "p\<lparr>inflight := drop_at i (inflight p)\<rparr>"
  have d: "distinct ?ids" and t: "typing_ids (thread p) = ?ids" using inv by (simp_all add: ids_inv_def)
  have r: "remove1 ?lid ?ids = drop_at i ?ids" using remove1_nth_distinct[OF d, of i] True by simp
  have n: "?lid \<notin> set (remove1 ?lid ?ids)" and d': "distinct (remove1 ?lid ?ids)" using d by simp_all
  have "typing_ids (thread (settle_turn ?lid r ?q)) = remove1 ?lid ?ids \<or>
        typing_ids (thread (settle_turn ?lid r ?q)) = remove1 ?lid (remove1 ?lid ?ids)"
    using settle_turn_typing[of ?lid r ?q] t by simp
  then have "typing_ids (thread (settle_turn ?lid r ?q)) = drop_at i ?ids"
    using r n by (auto simp add: remove1_idem)
  moreover have "distinct (drop_at i ?ids)" using d' r by simp
  ultimately show ?thesis using True by (simp add: resume_def ids_inv_def map_drop_at)
qed (simp add: resume_def inv)

lemma ids_step: "ids_inv p \<Longrightarrow> fresh_ids p e \<Longrightarrow> ids_inv (step p e)"
proof (cases e)
  case StartClick
  assume i: "ids_inv p" and f: "fresh_ids p e"
  show ?thesis
  proof (cases "start_btn p")
    case True
    have "ids_inv (p\<lparr>start_btn := False\<rparr>)" using i by (simp add: ids_inv_def)
    moreover have "list_all (\<lambda>t. loading_id t \<noteq> typing_id (clock p)) (inflight p)"
      using f StartClick by (simp add: fresh_ids_def)
    ultimately show ?thesis using StartClick True ids_send[of "p\<lparr>start_btn := False\<rparr>"] by (simp add: start_chat_def)
  qed (simp add: StartClick i)
next
  case SendClick
  assume "ids_inv p" "fresh_ids p e"
  then show ?thesis using SendClick by (simp add: fresh_ids_def ids_send)
next
  case (KeyPress k)
  assume "ids_inv p" "fresh_ids p e"
  then show ?thesis using KeyPress by (simp add: fresh_ids_def ids_send)
next
  case (Resume j r)
  assume "ids_inv p"
  then show ?thesis using Resume by (simp add: ids_resume)
qed (auto simp add: ids_inv_def page_defs Let_def)

text \<open>
  C15. Without the single-flight discipline, as long as each submission
  happens at a timestamp that no pending turn was started at, the page shows
  exactly one typing indicator per pending turn, in the order the turns were
  started, and their ids are distinct: the duplicate-id glitches need two
  turns in the same millisecond.
\<close>

theorem fresh_ids_placeholders:
  "reachable_under fresh_ids p \<Longrightarrow>
   typing_ids (thread p) = map loading_id (inflight p) \<and> distinct (typing_ids (thread p))"
proof -
  assume "reachable_under fresh_ids p"
  then have "ids_inv p"
  proof (induction rule: reachable_under.induct)
    case (init html btn label t0)
    then show ?case by (simp add: ids_inv_def init_page_def)
  next
    case (move p e)
    then show ?case using ids_step by blast
  qed
  then show ?thesis by (simp add: ids_inv_def)
qed

theorem fresh_ids_placeholders_witness:
  "reachable_under fresh_ids
     (run (init_page [] False [] 0) [Edit (js ''a''), SendClick, Tick 5, Edit (js ''b''), SendClick]) \<and>
   typing_ids (thread (run (init_page [] False [] 0) [Edit (js ''a''), SendClick, Tick 5, Edit (js ''b''), SendClick])) =
     [typing_id 0, typing_id 5] \<and>
   typing_ids (thread (run (init_page [] False [] 0) [Edit (js ''a''), SendClick, Tick 5, Edit (js ''b''), SendClick])) =
     map loading_id (inflight (run (init_page [] False [] 0) [Edit (js ''a''), SendClick, Tick 5, Edit (js ''b''), SendClick])) \<and>
   distinct (typing_ids (thread (run (init_page [] False [] 0) [Edit (js ''a''), SendClick, Tick 5, Edit (js ''b''), SendClick])))"
proof -
  let ?p = "run (init_page [] False [] 0) [Edit (js ''a''), SendClick, Tick 5, Edit (js ''b''), SendClick]"
  have e: "?p = step (step (step (step (step (init_page [] False [] 0) (Edit (js ''a''))) SendClick) (Tick 5))
      (Edit (js ''b''))) SendClick" by (simp add: run_def)
  have r: "reachable_under fresh_ids ?p" unfolding e
    by (intro reachable_under.move reachable_under.init)
       (simp_all add: fresh_ids_def init_page_def send_message_user_eq typing_id_inj)
  have "typing_ids (thread ?p) = [typing_id 0, typing_id 5]"
    unfolding e by (simp add: init_page_def send_message_user_eq)
  then show ?thesis using r fresh_ids_placeholders[OF r] by (simp add: typing_id_inj)
qed

end
