(* ===== verification/Spec2Isabelle.thy ===== *)
theory Spec2Isabelle
  imports Transport Conversation Interleaving
begin

text \<open>
  \<^bold>\<open>A verified model of the MediGate chat client.\<close>

  The repository's program is one browser script, \<open>src/static/script.js\<close>.
  It renders a chat thread, sends each user utterance to a dialogue service
  with \<open>fetch('/chat')\<close>, shows the service's reply, and carries an opaque
  conversation state (\<open>context\<close>) from one reply to the next request.  Its
  parts and the theories that model them:

  \<^item> \<open>Prelude\<close>: JavaScript strings as lists of UTF-16 code units
    (\<open>jstr\<close>, \<open>js\<close> for ASCII literals), removal at an index
    (\<open>drop_at\<close>), the decimal printing of \<open>Number.prototype.toString\<close>
    on naturals (\<open>dec\<close>) with its inverse \<open>parse_dec\<close>, and the list,
    word and multiset facts the components share.
  \<^item> \<open>Json\<close>: the values the script handles, JSON values with
    \<open>undefined\<close> as \<open>None\<close>; the initial state \<open>{state: 'START'}\<close>
    (line 7); the request object of lines 39--42 with \<open>JSON.stringify\<close>'s
    omission of an \<open>undefined\<close> state (\<open>request_body\<close>); the property reads
    \<open>data.context\<close> and \<open>data.response\<close> (\<open>get_prop\<close>), which throw on
    \<open>null\<close>.
  \<^item> \<open>JsonText\<close>: the browser's \<open>JSON.stringify\<close> (\<open>stringify\<close>,
    with \<open>QuoteJSONString\<close>'s escapes and surrogate rule, \<open>esc\<close>) and
    \<open>JSON.parse\<close> (\<open>json_parse\<close>, a mutual recursion \<open>p_value\<close>,
    \<open>p_elems\<close>, \<open>p_members\<close> with fuel), which the script calls at line 39
    and, through \<open>response.json()\<close>, at line 45; JavaScript's key order
    (\<open>js_order\<close>) and duplicate-key rule (\<open>obj_put\<close>); the
    well-formedness of the values a JavaScript program can hold
    (\<open>wf_json\<close>).
  \<^item> \<open>JsonRoundtrip\<close>: the proof that parsing inverts printing, bottom-up
    from hex escapes to the main induction over \<open>stringify\<close>.
  \<^item> \<open>Markdown\<close>: the text normalisation of \<open>addMessage\<close> (lines
    71--73).  The lazy bold regex is modelled twice, literally
    (\<open>match_at\<close>, \<open>replace_bold\<close>: the regex engine's search at each index)
    and as a one-pass recursion (\<open>close_len\<close>, \<open>bold_md\<close>); then the LF
    rewrite (\<open>newline_br\<close>); \<open>format_text\<close> composes them.
  \<^item> \<open>Renderer\<close>: the chat window as the record \<open>view\<close> (children in
    document order, \<open>scrollTop\<close>), \<open>addMessage\<close> (\<open>add_message\<close>, a
    \<open>TypeError\<close> on a non-string text), \<open>showTypingIndicator\<close> with its id
    \<open>'typing-' + Date.now()\<close>, \<open>removeTypingIndicator\<close> with
    \<open>getElementById\<close>'s first-match rule, and \<open>scrollToBottom\<close>.
  \<^item> \<open>Controller\<close>: the page record (extending \<open>view\<close> with the input
    field, the state \<open>context_val\<close>, the start button, the theme, the clock
    and the pending turns); \<open>sendMessage\<close> split at its \<open>await\<close> into
    \<open>send_message\<close>/\<open>dispatch\<close> (lines 25--43) and \<open>settle_turn\<close> with the
    catch block \<open>fail_path\<close> (lines 45--55); \<open>resume\<close> settles the
    \<open>i\<close>-th pending turn; \<open>startChat\<close>, the theme toggle, and \<open>step\<close>, one
    event of the page (the listeners of lines 10, 117 and 119 and the
    environment's moves: editing the field, the clock, a reply, scrolling).
  \<^item> \<open>Session\<close>: runs of the page as the inductive set
    \<open>reachable_under ok\<close> of states reached by events a policy admits, and
    the single-flight discipline that the specification asks for.
  \<^item> \<open>Interleaving\<close>: runs without the single-flight discipline, where
    several turns are pending at once; the condition that each submission
    has a fresh timestamp (\<open>fresh_ids\<close>) and the indicator invariant it
    keeps (\<open>ids_inv\<close>).
  \<^item> \<open>Transport\<close>: the wire between the page and the service: the posted
    text of a turn (\<open>request_text\<close>, lines 39--42), the decoding of the
    answer (\<open>decode_reply\<close>, lines 36 and 45), the condition that a
    reply came through that decoding (\<open>wire_ok\<close>) and the invariant it
    keeps (\<open>wire_inv\<close>: the stored state and every queued request are
    well-formed).
  \<^item> \<open>Conversation\<close>: the abstract conversation of the specification (a
    transcript and a state, one turn \<open>conv_turn\<close>), the service contract on
    replies (\<open>reply_outcome\<close>), the abstract machine that asks and answers
    one turn at a time (\<open>conv_move\<close>, run by \<open>conv_run\<close>) and the one
    with several awaited turns (\<open>mconv_move\<close>, \<open>mconv_run\<close>), the
    abstraction of a page (\<open>abs_page\<close>, \<open>abs_multi\<close>) and of a page event
    (\<open>abs_ev\<close>: a submission asks, the reply to a pending turn answers
    with that reply's own outcome, anything else is idle; \<open>abs_trace\<close>
    along a run), and the one-step simulation lemmas.
  \<^item> This theory: the refinement theorems, for one user turn, for the start
    turn, and for whole runs.

  Interaction: a UI event calls \<open>sendMessage\<close>, which appends entries through
  the renderer and leaves a pending turn; the environment later settles that
  turn with a reply, which updates \<open>context\<close> and the thread.  Replies may
  arrive in any order and user events may come in between, so the pending
  turns are a list and \<open>resume\<close> takes an index.

  What the lemmas show.  Controller: the exact effect of a user message, of
  an empty one, of a successful reply, of a failed one and of a malformed one;
  that the next request carries the state of the last reply; the one-shot
  start trigger.  Session: every visible indicator belongs to a pending turn
  in all runs; under single flight at most one indicator, exactly one per
  pending turn; whatever the replies are and in whatever order they
  arrive, once every pending turn is settled (\<open>settles\<close>) no turn is
  pending and no indicator is left; the view is pinned after every thread change; the theme toggle
  touches nothing else.  Interleaving: with fresh timestamps, even
  concurrent turns each show exactly their own indicator, so the duplicate
  id is the only cause of the indicator glitches.  Markdown: the one-pass rewrite equals the regex
  semantics; no LF survives; plain
  text is unchanged; no character is escaped.  Renderer: \<open>addMessage\<close>'s
  effect and error; idempotent removal for unique ids, and for duplicate ids
  a second removal that takes another turn's indicator.  JSON (library
  lemmas, not claims): parsing always ends without exhausting its fuel, its
  results are well-formed, and it inverts printing on well-formed values.
  Transport: on every run whose replies come over the wire each posted
  request text reads back as the request; no response or a body that is
  not JSON (an HTML error page, an empty body) takes the catch path.  Here:
  each user turn and the start turn refine the abstract turn for replies
  inside the service contract.  Whole runs refine as functions: on every
  run from a loaded page under single flight with such replies,
  \<open>conv_run\<close> on the run's abstract moves (\<open>abs_trace\<close>) returns exactly
  the abstraction of the final page; without single flight every run with
  such replies is, in the same sense, a run of the machine that counts
  awaited turns, with the state of the last reply to arrive.

  Choices and bounds.  No loop of the script needs fuel: the regex scan is a
  \<open>function\<close> with the measure \<open>length s - i\<close>, everything else is
  structural.  The model of \<open>JSON.parse\<close> is a mutual recursion over
  nested values, so it carries fuel; \<open>json_parse\<close> gives
  \<open>2 * length s + 2\<close>.  That is enough (\<open>json_parse_fuel\<close>): a value
  needs more fuel than twice its text's length and a list of elements or
  members one more, because every nested call either consumes a code unit
  before descending or is made on a strictly shorter rest
  (\<open>p_len\<close>, \<open>p_fuel\<close>).  Strings are UTF-16 code units, so the four line terminators
  that \<open>.\<close> does not match (LF, CR, U+2028, U+2029) are all representable.
  JSON numbers are integers of magnitude at most \<open>2^53\<close>, the ones a
  double holds exactly (the client never computes with them); text with a
  fraction, an exponent or a larger integer is \<open>Unsupported\<close>, outside the
  model, and \<open>decode_reply\<close> gives \<open>None\<close> for it.  Layout is
  abstracted to one unit per entry, so \<open>scrollHeight\<close> is the number of
  entries.  The two awaits of \<open>sendMessage\<close> are one resumption, since
  nothing between them changes the page.

  Plan.  The order of work follows the importance of the behaviour: first
  the controller's turn protocol (done: every branch of \<open>sendMessage\<close>,
  the state round trip, the refinement of a turn), then the runs of the page
  (done: the placeholder invariants, progress once all replies arrive, the
  concrete interleavings the code allows, and the refinement of whole
  runs to the abstract machines), then the renderer and the
  text normalisation (done), then the textual JSON layer and the wire (done:
  printer and fuelled parser, termination, type, round trip, the posted
  text of every queued request, the catch path of an undecodable answer), then
  concurrent runs (done: with fresh timestamps every pending turn shows
  exactly its own indicator).  What remains is
  outside the script: the dialogue service, the HTML parsing of the
  entries and the layout (see below).

  Not modelled: the HTML and CSS (not under \<open>src/\<close>; the initial thread and
  the start button are parameters of \<open>init_page\<close>), the dialogue service
  (its reply is the environment's choice, given as a body text or a
  failed fetch), the HTTP status of a response (the script never reads
  it), JSON numbers that are not integers within \<open>2^53\<close>, the HTML parsing
  of \<open>innerHTML\<close> (entries keep the HTML source string), and
  \<open>console.error\<close>, which only logs.
\<close>

text \<open>
  C6. Refinement of the conversation contract: one user turn of the page
  (the synchronous part of \<open>sendMessage\<close> followed, possibly after other
  pending turns, by the resumption of that same turn) changes the visible
  transcript and the stored state exactly as the abstract turn of the
  specification does, for every reply inside the service contract (a
  transport failure, a \<open>null\<close> body, or a body with a string response).
\<close>

theorem turn_refines:
  assumes "m \<noteq> []" and "reply_outcome r = Some oc"
  shows "abs_conv (resume (length (inflight p)) r (send_message m False p)) =
         conv_turn (abs_conv p) (Some m) oc"
proof -
  let ?q = "p\<lparr>thread := thread p @ [Message User (format_text m), Typing (typing_id (clock p))],
       scroll_top := Suc (Suc (length (thread p))), input := []\<rparr>"
  let ?t = "\<lparr>loading_id = typing_id (clock p), request = request_body m (context_val p)\<rparr>"
  have "send_message m False p = ?q\<lparr>inflight := inflight p @ [?t]\<rparr>"
    using assms(1) by (simp add: send_message_user_eq)
  then have "resume (length (inflight p)) r (send_message m False p) =
      settle_turn (typing_id (clock p)) r (?q\<lparr>inflight := inflight p\<rparr>)"
    by (simp add: resume_last)
  then have "abs_conv (resume (length (inflight p)) r (send_message m False p)) =
      abs_conv (settle_turn (typing_id (clock p)) r (?q\<lparr>inflight := inflight p\<rparr>))" by simp
  also have "\<dots> = \<lparr>transcript = entries (thread (?q\<lparr>inflight := inflight p\<rparr>)) @
        [(Bot, format_text (case oc of Answered _ t \<Rightarrow> t | Failed \<Rightarrow> fallback_text))],
      conv_state = (case oc of Answered s _ \<Rightarrow> s | Failed \<Rightarrow> context_val (?q\<lparr>inflight := inflight p\<rparr>))\<rparr>"
    by (rule settle_turn_outcome[OF assms(2)])
  also have "\<dots> = conv_turn (abs_conv p) (Some m) oc"
    by (simp add: conv_turn_def abs_conv_def split: outcome.split)
  finally show ?thesis .
qed

text \<open>
  C11. The start trigger refines the abstract system turn: no user entry, and
  the reply seeds the transcript and the state.
\<close>

theorem start_refines:
  assumes "start_btn p" and "reply_outcome r = Some oc"
  shows "abs_conv (resume (length (inflight p)) r (step p StartClick)) =
         conv_turn (abs_conv p) None oc"
proof -
  let ?q = "p\<lparr>thread := thread p @ [Typing (typing_id (clock p))],
       scroll_top := Suc (length (thread p)), start_btn := False\<rparr>"
  let ?t = "\<lparr>loading_id = typing_id (clock p), request = request_body [] (context_val p)\<rparr>"
  have "step p StartClick = ?q\<lparr>inflight := inflight p @ [?t]\<rparr>"
    using step_StartClick_eq[OF assms(1)] by simp
  then have "resume (length (inflight p)) r (step p StartClick) =
      settle_turn (typing_id (clock p)) r (?q\<lparr>inflight := inflight p\<rparr>)"
    by (simp only: resume_last) simp
  then have "abs_conv (resume (length (inflight p)) r (step p StartClick)) =
      abs_conv (settle_turn (typing_id (clock p)) r (?q\<lparr>inflight := inflight p\<rparr>))" by simp
  also have "\<dots> = \<lparr>transcript = entries (thread (?q\<lparr>inflight := inflight p\<rparr>)) @
        [(Bot, format_text (case oc of Answered _ t \<Rightarrow> t | Failed \<Rightarrow> fallback_text))],
      conv_state = (case oc of Answered s _ \<Rightarrow> s | Failed \<Rightarrow> context_val (?q\<lparr>inflight := inflight p\<rparr>))\<rparr>"
    by (rule settle_turn_outcome[OF assms(2)])
  also have "\<dots> = conv_turn (abs_conv p) None oc"
    by (simp add: conv_turn_def abs_conv_def split: outcome.split)
  finally show ?thesis .
qed


text \<open>
  C12. Refinement of whole runs, as a function of the run: on every run
  from a freshly loaded page in which no second request is submitted while
  one is pending and every reply is inside the service contract, running the
  abstract conversation on the abstract moves of the run (a submission asks,
  the reply to a pending turn answers with that reply's own outcome,
  anything else is idle) never blocks and ends in exactly the transcript,
  stored state and pending flag of the page.
\<close>

theorem runs_refine:
  "typing_ids html = [] \<Longrightarrow> run_ok contract_ok (init_page html btn label t0) es \<Longrightarrow>
   conv_run \<lparr>transcript = entries html, conv_state = Some initial_context, busy = False\<rparr>
     (abs_trace (init_page html btn label t0) es) =
   Some (abs_page (run (init_page html btn label t0) es))"
proof -
  assume h: "typing_ids html = []" and r: "run_ok contract_ok (init_page html btn label t0) es"
  have "sf_inv (init_page html btn label t0)" using h by (simp add: sf_inv_def init_page_def)
  from conv_run_refines[OF this r] show ?thesis by (simp add: abs_page_def init_page_def)
qed

text \<open>
  C13. Refinement of every run whose replies are inside the service
  contract, with any number of turns pending: the page is the abstract
  machine that counts awaited turns, run on the abstract moves of the run.
  Each arriving reply answers with its own outcome and replaces the stored
  state, so the state is that of the last reply to arrive, not of the last
  request sent.
\<close>

theorem runs_refine_multi:
  "run_ok replies_ok p es \<Longrightarrow> mconv_run (abs_multi p) (abs_trace p es) = Some (abs_multi (run p es))"
proof (induction es arbitrary: p)
  case (Cons e es)
  then show ?case using msim_step[of p e] by (simp add: run_Cons)
qed (simp add: run_Nil)


theorem turn_refines_witness:
  "js ''hello'' \<noteq> [] \<and> reply_outcome Rejected = Some Failed \<and>
   abs_conv (resume (length (inflight (init_page [] False [] 0))) Rejected
     (send_message (js ''hello'') False (init_page [] False [] 0))) =
   conv_turn (abs_conv (init_page [] False [] 0)) (Some (js ''hello'')) Failed"
proof -
  have m: "js ''hello'' \<noteq> []" by simp
  have r: "reply_outcome Rejected = Some Failed" by (simp add: reply_outcome_def)
  show ?thesis using m r turn_refines[OF m r] by blast
qed

theorem start_refines_witness:
  "start_btn (init_page [] True [] 0) \<and> reply_outcome Rejected = Some Failed \<and>
   abs_conv (resume (length (inflight (init_page [] True [] 0))) Rejected
     (step (init_page [] True [] 0) StartClick)) =
   conv_turn (abs_conv (init_page [] True [] 0)) None Failed"
proof -
  have b: "start_btn (init_page [] True [] 0)" by (simp add: init_page_def)
  have r: "reply_outcome Rejected = Some Failed" by (simp add: reply_outcome_def)
  show ?thesis using b r start_refines[OF b r] by blast
qed

theorem runs_refine_witness:
  "typing_ids [] = [] \<and> run_ok contract_ok (init_page [] False [] 0) [Edit (js ''hi''), SendClick, Resume 0 (Replied (JObj [(js ''response'', JStr (js ''ra'')), (js ''context'', JStr (js ''A''))]))] \<and>
   conv_run \<lparr>transcript = entries [], conv_state = Some initial_context, busy = False\<rparr>
     (abs_trace (init_page [] False [] 0) [Edit (js ''hi''), SendClick, Resume 0 (Replied (JObj [(js ''response'', JStr (js ''ra'')), (js ''context'', JStr (js ''A''))]))]) =
   Some (abs_page (run (init_page [] False [] 0) [Edit (js ''hi''), SendClick, Resume 0 (Replied (JObj [(js ''response'', JStr (js ''ra'')), (js ''context'', JStr (js ''A''))]))]))"
proof -
  have h: "typing_ids [] = []" by simp
  have r: "run_ok contract_ok (init_page [] False [] 0) [Edit (js ''hi''), SendClick, Resume 0 (Replied (JObj [(js ''response'', JStr (js ''ra'')), (js ''context'', JStr (js ''A''))]))]"
    by (simp add: contract_ok_def single_flight_def init_page_def send_message_user_eq reply_outcome_def js_def)
  show ?thesis using h r runs_refine[OF h r] by blast
qed

theorem runs_refine_multi_witness:
  "run_ok replies_ok (init_page [] False [] 0) [Edit (js ''a''), SendClick, Tick 1, Edit (js ''b''), SendClick, Resume 1 (Replied (JObj [(js ''response'', JStr (js ''rb'')), (js ''context'', JStr (js ''B''))])), Resume 0 (Replied (JObj [(js ''response'', JStr (js ''ra'')), (js ''context'', JStr (js ''A''))]))] \<and>
   mconv_run (abs_multi (init_page [] False [] 0)) (abs_trace (init_page [] False [] 0) [Edit (js ''a''), SendClick, Tick 1, Edit (js ''b''), SendClick, Resume 1 (Replied (JObj [(js ''response'', JStr (js ''rb'')), (js ''context'', JStr (js ''B''))])), Resume 0 (Replied (JObj [(js ''response'', JStr (js ''ra'')), (js ''context'', JStr (js ''A''))]))]) =
     Some (abs_multi (run (init_page [] False [] 0) [Edit (js ''a''), SendClick, Tick 1, Edit (js ''b''), SendClick, Resume 1 (Replied (JObj [(js ''response'', JStr (js ''rb'')), (js ''context'', JStr (js ''B''))])), Resume 0 (Replied (JObj [(js ''response'', JStr (js ''ra'')), (js ''context'', JStr (js ''A''))]))]))"
proof -
  have r: "run_ok replies_ok (init_page [] False [] 0) [Edit (js ''a''), SendClick, Tick 1, Edit (js ''b''), SendClick, Resume 1 (Replied (JObj [(js ''response'', JStr (js ''rb'')), (js ''context'', JStr (js ''B''))])), Resume 0 (Replied (JObj [(js ''response'', JStr (js ''ra'')), (js ''context'', JStr (js ''A''))]))]"
    by (simp add: replies_ok_def reply_outcome_def js_def)
  show ?thesis using r runs_refine_multi[OF r] by blast
qed

end
